theory Spec2Isabelle
  imports Complex_Main "HOL-Library.Word"
begin

unbundle bit_operations_syntax

section \<open>The streaming speech service (vosk\_service.py)\<close>

text \<open>
  The development embeds \<^verbatim>\<open>recognize_audio_stream\<close> and \<^verbatim>\<open>reset_recognizer\<close> of
  \<^verbatim>\<open>src/vosk_service.py\<close>. The module's globals become one record that every handler
  takes and returns; exceptions are values \<open>Inl msg\<close>; the external recognition engine
  (package \<^verbatim>\<open>vosk\<close>) and \<^verbatim>\<open>json.loads\<close> are parameters of the handlers.
\<close>

subsection \<open>Bytes, 16-bit samples and numpy arrays\<close>

type_synonym byte = "8 word"
type_synonym int16 = "16 word"
type_synonym exn = string

text \<open>
  A numpy \<^verbatim>\<open>int16\<close> array: its elements and its \<^verbatim>\<open>writeable\<close> flag.
  \<^verbatim>\<open>np.frombuffer\<close> on an immutable \<^verbatim>\<open>bytes\<close> object gives a read-only view;
  arithmetic, \<^verbatim>\<open>astype\<close> and \<^verbatim>\<open>np.concatenate\<close> give fresh writeable arrays.
\<close>

record ndarray_i16 =
  data :: "int16 list"
  writeable :: bool

definition to_le16 :: "int16 \<Rightarrow> byte list" where
  "to_le16 w = [ucast w, ucast (drop_bit 8 w)]"

definition of_le16 :: "byte \<Rightarrow> byte \<Rightarrow> int16" where
  "of_le16 lo hi = ucast lo OR push_bit 8 (ucast hi)"

definition tobytes :: "int16 list \<Rightarrow> byte list" where
  "tobytes xs = concat (map to_le16 xs)"

fun le16_items :: "byte list \<Rightarrow> int16 list" where
  "le16_items (lo # hi # bs) = of_le16 lo hi # le16_items bs"
| "le16_items _ = []"

text \<open>\<^verbatim>\<open>np.frombuffer(buf, dtype=np.int16)\<close> on \<^verbatim>\<open>bytes\<close>: ValueError unless the size is
  a multiple of the element size; the view is read-only.\<close>

definition frombuffer_i16 :: "byte list \<Rightarrow> exn + ndarray_i16" where
  "frombuffer_i16 buf =
     (if length buf mod 2 \<noteq> 0 then Inl ''buffer size must be a multiple of element size''
      else Inr \<lparr>data = le16_items buf, writeable = False\<rparr>)"

text \<open>\<^verbatim>\<open>a[i] = v\<close>: numpy raises ValueError on a read-only array.\<close>

definition setitem :: "ndarray_i16 \<Rightarrow> nat \<Rightarrow> int16 \<Rightarrow> exn + ndarray_i16" where
  "setitem a i v =
     (if writeable a then Inr (a\<lparr>data := (data a)[i := v]\<rparr>)
      else Inl ''assignment destination is read-only'')"

subsection \<open>IEEE binary32 samples\<close>

text \<open>
  A float32 value: NaN, a signed infinity, or sign, significand and binary exponent of a
  finite value \<open>\<plusminus> m * 2 ^ e\<close>. \<^verbatim>\<open>np.frombuffer(audio_data, dtype=np.float32)\<close> reads
  each group of four bytes, little-endian, as one such value.
\<close>

datatype f32 = NaN | Inf bool | Fin bool nat int

definition of_le32 :: "byte \<Rightarrow> byte \<Rightarrow> byte \<Rightarrow> byte \<Rightarrow> 32 word" where
  "of_le32 b0 b1 b2 b3 =
     ucast b0 OR push_bit 8 (ucast b1) OR push_bit 16 (ucast b2) OR push_bit 24 (ucast b3)"

definition decode_f32 :: "32 word \<Rightarrow> f32" where
  "decode_f32 w =
     (let s = bit w 31;
          e = unat (drop_bit 23 w AND 255);
          m = unat (w AND 8388607)
      in if e = 255 then (if m = 0 then Inf s else NaN)
         else if e = 0 then Fin s m (- 149)
         else Fin s (8388608 + m) (int e - 150))"

fun f32_items :: "byte list \<Rightarrow> f32 list" where
  "f32_items (b0 # b1 # b2 # b3 # bs) = decode_f32 (of_le32 b0 b1 b2 b3) # f32_items bs"
| "f32_items _ = []"

definition frombuffer_f32 :: "byte list \<Rightarrow> exn + f32 list" where
  "frombuffer_f32 buf =
     (if length buf mod 4 \<noteq> 0 then Inl ''buffer size must be a multiple of element size''
      else Inr (f32_items buf))"

definition isnan :: "f32 \<Rightarrow> bool" where
  "isnan x = (case x of NaN \<Rightarrow> True | _ \<Rightarrow> False)"

definition isinf :: "f32 \<Rightarrow> bool" where
  "isinf x = (case x of Inf s \<Rightarrow> True | _ \<Rightarrow> False)"

definition one_f32 :: "bool \<Rightarrow> f32" where
  "one_f32 s = Fin s 1 0"

text \<open>\<^verbatim>\<open>np.nan_to_num(x, nan=0.0, posinf=1.0, neginf=-1.0)\<close>, per element.\<close>

definition nan_to_num :: "f32 \<Rightarrow> f32" where
  "nan_to_num x = (case x of NaN \<Rightarrow> Fin False 0 0 | Inf s \<Rightarrow> one_f32 s | Fin s m e \<Rightarrow> x)"

text \<open>Whether a magnitude \<open>m * 2 ^ e\<close> exceeds 1.\<close>

definition above_one :: "nat \<Rightarrow> int \<Rightarrow> bool" where
  "above_one m e = (if 0 \<le> e then 1 < m * 2 ^ nat e else 2 ^ nat (- e) < m)"

text \<open>\<^verbatim>\<open>np.clip(x, -1.0, 1.0)\<close>, per element; NaN stays NaN.\<close>

definition clip :: "f32 \<Rightarrow> f32" where
  "clip x = (case x of NaN \<Rightarrow> NaN | Inf s \<Rightarrow> one_f32 s
             | Fin s m e \<Rightarrow> if above_one m e then one_f32 s else x)"

text \<open>Number of binary digits of a natural number.\<close>

fun bitlen_nat :: "nat \<Rightarrow> nat" where
  "bitlen_nat n = (if n = 0 then 0 else Suc (bitlen_nat (n div 2)))"

declare bitlen_nat.simps [simp del]

text \<open>Division by \<open>2 ^ s\<close>, rounded to nearest, ties to even.\<close>

definition round_shift :: "nat \<Rightarrow> nat \<Rightarrow> nat" where
  "round_shift n s =
     (let q = n div 2 ^ s; r = n mod 2 ^ s
      in if 2 * r < 2 ^ s then q
         else if 2 ^ s < 2 * r then q + 1
         else if even q then q else q + 1)"

text \<open>
  \<^verbatim>\<open>float_data * 32767\<close>: the float32 array times a Python integer stays float32, so
  the exact product is rounded to 24 significant bits (ties to even); a result of
  \<open>2 ^ 128\<close> or more overflows to infinity. The exponent of a finite float32 is at least
  \<open>- 149\<close>, so dropping the excess digits never goes below the subnormal quantum.
\<close>

definition mul_32767 :: "f32 \<Rightarrow> f32" where
  "mul_32767 x =
     (case x of NaN \<Rightarrow> NaN | Inf s \<Rightarrow> Inf s
      | Fin s m e \<Rightarrow>
          (let n = m * 32767;
               sh = bitlen_nat n - 24;
               n' = round_shift n sh;
               e' = e + int sh
           in if 0 \<le> e' \<and> 2 ^ 128 \<le> n' * 2 ^ nat e' then Inf s else Fin s n' e'))"

text \<open>
  \<^verbatim>\<open>astype(np.int16)\<close>: the C conversion truncates towards zero. It is undefined for
  NaN, the infinities and values whose integer part is outside the int16 range from
  -32768 to 32767. \<open>astype_defined\<close> says where the conversion is defined; where it is
  not, numpy stores a value that depends on the platform, for which the model writes 0.
  The handler never converts such a value, as is proved of \<open>scale_float_data\<close> below.
\<close>

definition trunc_mag :: "nat \<Rightarrow> int \<Rightarrow> nat" where
  "trunc_mag m e = (if 0 \<le> e then m * 2 ^ nat e else m div 2 ^ nat (- e))"

definition astype_defined :: "f32 \<Rightarrow> bool" where
  "astype_defined x =
     (case x of
        Fin s m e \<Rightarrow> trunc_mag m e \<le> (if s then 32768 else 32767)
      | _ \<Rightarrow> False)"

definition astype_int16 :: "f32 \<Rightarrow> int16" where
  "astype_int16 x =
     (case x of
        Fin s m e \<Rightarrow>
          (if trunc_mag m e \<le> (if s then 32768 else 32767)
           then (if s then - word_of_nat (trunc_mag m e) else word_of_nat (trunc_mag m e))
           else 0)
      | _ \<Rightarrow> 0)"

text \<open>
  Lines 195-211: the float32 view of the body is sanitised when it holds a NaN or an
  infinity, clipped, scaled and converted. The \<^verbatim>\<open>except\<close> of line 212 turns an
  exception into a 400 response: the ValueError of \<^verbatim>\<open>np.frombuffer\<close> on a size that
  is no multiple of 4, and the ValueError of \<^verbatim>\<open>float_data.min()\<close> in line 196 on an
  empty array. \<open>None\<close> is the "Float32 data empty" return of line 197, which line 196
  leaves no way to reach.
\<close>

text \<open>Lines 203-210 up to the cast: the float32 array \<^verbatim>\<open>float_data * 32767\<close> that
  \<^verbatim>\<open>astype\<close> converts.\<close>

definition scale_float_data :: "f32 list \<Rightarrow> f32 list" where
  "scale_float_data float_data =
     (let float_data1 =
            (if list_ex isnan float_data \<or> list_ex isinf float_data
             then map nan_to_num float_data else float_data);
          float_data2 = map clip float_data1
      in map mul_32767 float_data2)"

definition to_int16 :: "byte list \<Rightarrow> exn + int16 list option" where
  "to_int16 audio_data =
     (case frombuffer_f32 audio_data of
        Inl e \<Rightarrow> Inl e
      | Inr float_data \<Rightarrow>
          if float_data = []
          then Inl ''zero-size array to reduction operation minimum which has no identity''
          else if length float_data = 0 then Inr None
          else
            let int16_data = map astype_int16 (scale_float_data float_data)
            in Inr (Some int16_data))"

subsection \<open>Normalising the PCM buffer (lines 222-259)\<close>

text \<open>\<^verbatim>\<open>np.abs(np.diff(audio_samples.astype(np.float32)))\<close>: differences of int16 values
  are below \<open>2 ^ 17\<close> and exact in float32, so they are modelled as integers.\<close>

fun abs_diff :: "int16 list \<Rightarrow> int list" where
  "abs_diff (a # b # xs) = \<bar>sint b - sint a\<bar> # abs_diff (b # xs)"
| "abs_diff _ = []"

text \<open>\<^verbatim>\<open>np.max\<close> of a non-empty array.\<close>

fun np_max :: "int list \<Rightarrow> int" where
  "np_max [] = 0"
| "np_max (x # xs) = fold max xs x"

text \<open>The loop of lines 248-250, from index \<open>i\<close> on.\<close>

function declick_loop :: "nat \<Rightarrow> ndarray_i16 \<Rightarrow> exn + ndarray_i16" where
  "declick_loop i audio_samples =
     (if i < length (data audio_samples) then
        (if \<bar>sint (data audio_samples ! i) - sint (data audio_samples ! (i - 1))\<bar> > 20000
         then (case setitem audio_samples i (data audio_samples ! (i - 1)) of
                 Inl e \<Rightarrow> Inl e
               | Inr audio_samples' \<Rightarrow> declick_loop (Suc i) audio_samples')
         else declick_loop (Suc i) audio_samples)
      else Inr audio_samples)"
  by pat_completeness auto
termination
  by (relation "measure (\<lambda>(i, a). length (data a) - i)")
     (auto simp: setitem_def split: if_splits)

declare declick_loop.simps [simp del]

definition max_bytes :: nat where
  "max_bytes = 16000 * 2"

definition min_samples :: nat where
  "min_samples = 160"

text \<open>Lines 232-238: drop a trailing odd byte, cap the length.\<close>

definition truncate_pcm :: "byte list \<Rightarrow> byte list" where
  "truncate_pcm audio_bytes =
     (let audio_bytes1 =
            (if length audio_bytes mod 2 \<noteq> 0 then butlast audio_bytes else audio_bytes)
      in if length audio_bytes1 > max_bytes then take max_bytes audio_bytes1
         else audio_bytes1)"

text \<open>Lines 242-251: the pair is \<^verbatim>\<open>(audio_bytes, audio_samples)\<close> after the step.\<close>

definition declick :: "byte list \<Rightarrow> exn + byte list \<times> ndarray_i16" where
  "declick audio_bytes =
     (case frombuffer_i16 audio_bytes of
        Inl e \<Rightarrow> Inl e
      | Inr audio_samples \<Rightarrow>
          if length (data audio_samples) > 1 then
            (let diff = abs_diff (data audio_samples);
                 max_diff = np_max diff
             in if max_diff > 20000 then
                  (case declick_loop 1 audio_samples of
                     Inl e \<Rightarrow> Inl e
                   | Inr audio_samples' \<Rightarrow> Inr (tobytes (data audio_samples'), audio_samples'))
                else Inr (audio_bytes, audio_samples))
          else Inr (audio_bytes, audio_samples))"

text \<open>Lines 253-259: the guard of the padding branch, and the branch.\<close>

definition pad_needed :: "ndarray_i16 \<Rightarrow> bool" where
  "pad_needed audio_samples = (length (data audio_samples) < min_samples)"

definition pad_min :: "byte list \<times> ndarray_i16 \<Rightarrow> byte list \<times> ndarray_i16" where
  "pad_min p =
     (case p of (audio_bytes, audio_samples) \<Rightarrow>
        if pad_needed audio_samples then
          (let padding = replicate (min_samples - length (data audio_samples)) (0 :: int16);
               audio_samples' = \<lparr>data = data audio_samples @ padding, writeable = True\<rparr>
           in (tobytes (data audio_samples'), audio_samples'))
        else (audio_bytes, audio_samples))"

datatype norm_outcome = TooShort | Raised exn | Ready "byte list"

text \<open>Lines 223-259 as one function of \<^verbatim>\<open>int16_data\<close>: the too-short return of line 225,
  an exception (caught at line 306), or the buffer that goes on to the engine.\<close>

definition normalize_pcm :: "int16 list \<Rightarrow> norm_outcome" where
  "normalize_pcm int16_data =
     (let audio_bytes = tobytes int16_data
      in if length audio_bytes < 640 then TooShort
         else (case declick (truncate_pcm audio_bytes) of
                 Inl e \<Rightarrow> Raised e
               | Inr p \<Rightarrow> Ready (fst (pad_min p))))"

subsection \<open>The external engine, JSON values and responses\<close>

datatype jval = JNull | JBool bool | JInt int | JFloat rat | JStr string
  | JArr "jval list" | JObj "(string \<times> jval) list"

text \<open>The name Python gives the type of a decoded JSON value.\<close>

definition type_name :: "jval \<Rightarrow> string" where
  "type_name v =
     (case v of JNull \<Rightarrow> ''NoneType'' | JBool b \<Rightarrow> ''bool'' | JInt i \<Rightarrow> ''int''
      | JFloat r \<Rightarrow> ''float'' | JStr t \<Rightarrow> ''str'' | JArr vs \<Rightarrow> ''list''
      | JObj items \<Rightarrow> ''dict'')"

text \<open>\<^verbatim>\<open>d.get(k, default)\<close>: only a dict has the method; on any other value Python
  raises AttributeError, whose text names the type and, in single quotes (character
  39), the attribute.\<close>

definition dict_get :: "jval \<Rightarrow> string \<Rightarrow> jval \<Rightarrow> exn + jval" where
  "dict_get d k dflt =
     (case d of
        JObj items \<Rightarrow> Inr (case map_of items k of None \<Rightarrow> dflt | Some v \<Rightarrow> v)
      | _ \<Rightarrow>
          Inl ([CHR 39] @ type_name d @ [CHR 39] @ '' object has no attribute ''
               @ [CHR 39] @ ''get'' @ [CHR 39]))"

text \<open>
  The operations of package \<^verbatim>\<open>vosk\<close> and \<^verbatim>\<open>json.loads\<close>, which are not part of the
  repository. \<open>'m\<close> is the loaded model, \<open>'h\<close> the state of a recognizer object. Every
  method may raise (\<open>Inl\<close>) and returns the recognizer's state after the call.
\<close>

record ('m, 'h) vosk =
  KaldiRecognizer :: "'m \<Rightarrow> nat \<Rightarrow> exn + 'h"
  AcceptWaveform :: "'h \<Rightarrow> byte list \<Rightarrow> (exn + bool) \<times> 'h"
  Result :: "'h \<Rightarrow> (exn + string) \<times> 'h"
  PartialResult :: "'h \<Rightarrow> (exn + string) \<times> 'h"
  FinalResult :: "'h \<Rightarrow> (exn + string) \<times> 'h"
  json_loads :: "string \<Rightarrow> exn + jval"

text \<open>The calls a handler makes into the engine, recorded in order (a ghost trace).\<close>

datatype engine_call = Create | Accept string "byte list" | GetResult string
  | GetPartial string | GetFinal string

text \<open>
  The module's globals (lines 22-28). A lock object is reachable only through
  \<open>session_locks\<close>, so the entry holds its state: \<open>True\<close> while a request holds it.
  \<^verbatim>\<open>request_count\<close> is never read or written by a handler and is left out.
\<close>

record ('m, 'h) globals =
  model :: "'m option"
  rec :: "'h option"
  recognizers :: "string \<rightharpoonup> 'h"
  session_locks :: "string \<rightharpoonup> bool"
  session_closed :: "string set"
  engine_calls :: "engine_call list"

record request =
  hdr_session_id :: "string option"
  arg_session_id :: "string option"
  remote_addr :: "string option"
  hdr_end_of_utterance :: "string option"
  body :: "byte list"

text \<open>The \<^verbatim>\<open>error\<close> texts of the responses; \<open>BadLength n\<close> carries the byte count, the
  last four the text of the exception.\<close>

datatype err_msg = ModelNotInitialised | EmptyAudio | BadLength nat | EmptyFloat
  | ConversionFailed exn | CreateFailed exn | VoskFailed exn | Uncaught exn

text \<open>\<open>ErrorBody e\<close> is \<^verbatim>\<open>{error: e, success: False}\<close>; \<open>TextBody t c ty\<close> is
  \<^verbatim>\<open>{text: t, confidence: c, success: True, type: ty}\<close> with \<^verbatim>\<open>confidence\<close> left out
  for \<open>None\<close>; \<open>ResetBody\<close> is the success message of \<^verbatim>\<open>/reset\<close>.\<close>

datatype json_body = ErrorBody err_msg | TextBody jval "jval option" string | ResetBody

type_synonym response = "nat \<times> json_body"

definition empty_partial :: response where
  "empty_partial = (200, TextBody (JStr []) None ''partial'')"

definition empty_final :: response where
  "empty_final = (200, TextBody (JStr []) None ''final'')"

subsection \<open>Session id and the end-of-utterance flag (lines 139-143)\<close>

definition truthy :: "string option \<Rightarrow> bool" where
  "truthy x = (case x of None \<Rightarrow> False | Some s \<Rightarrow> s \<noteq> [])"

definition py_or :: "string option \<Rightarrow> string option \<Rightarrow> string option" where
  "py_or x y = (if truthy x then x else y)"

definition session_id_of :: "request \<Rightarrow> string" where
  "session_id_of request =
     (let session_id = py_or (hdr_session_id request) (arg_session_id request);
          session_id1 =
            (if \<not> truthy session_id then py_or (remote_addr request) (Some ''default'')
             else session_id)
      in case session_id1 of None \<Rightarrow> ''default'' | Some s \<Rightarrow> s)"

text \<open>\<^verbatim>\<open>str.lower\<close> on the letters A-Z; no other character lowers to a letter of the
  three literals the header is compared with.\<close>

definition lower_char :: "char \<Rightarrow> char" where
  "lower_char c =
     (if 65 \<le> (of_char c :: nat) \<and> (of_char c :: nat) \<le> 90
      then char_of (of_char c + 32 :: nat) else c)"

definition end_of_utt_of :: "request \<Rightarrow> bool" where
  "end_of_utt_of request =
     (map lower_char (case hdr_end_of_utterance request of None \<Rightarrow> ''0'' | Some v \<Rightarrow> v)
        \<in> set [''1'', ''true'', ''yes''])"

subsection \<open>Locks\<close>

text \<open>\<^verbatim>\<open>session_locks.setdefault(session_id, threading.Lock())\<close>: a fresh lock is free.\<close>

definition setdefault_lock :: "('m, 'h) globals \<Rightarrow> string \<Rightarrow> ('m, 'h) globals" where
  "setdefault_lock g session_id =
     (case session_locks g session_id of
        None \<Rightarrow> g\<lparr>session_locks := (session_locks g)(session_id \<mapsto> False)\<rparr>
      | Some l \<Rightarrow> g)"

text \<open>Entering \<^verbatim>\<open>with lock:\<close>. A lock that another request holds is never released
  within this request, so the request does not return: \<open>None\<close>.\<close>

definition acquire :: "('m, 'h) globals \<Rightarrow> string \<Rightarrow> ('m, 'h) globals option" where
  "acquire g session_id =
     (if session_locks g session_id = Some True then None
      else Some (g\<lparr>session_locks := (session_locks g)(session_id \<mapsto> True)\<rparr>))"

text \<open>Leaving \<^verbatim>\<open>with lock:\<close>. When the entry was popped inside the block, the released
  lock object is no longer in the map.\<close>

definition release :: "('m, 'h) globals \<Rightarrow> string \<Rightarrow> ('m, 'h) globals" where
  "release g session_id =
     (case session_locks g session_id of
        None \<Rightarrow> g
      | Some l \<Rightarrow> g\<lparr>session_locks := (session_locks g)(session_id \<mapsto> False)\<rparr>)"

subsection \<open>The handler of /recognize\_stream (lines 126-324)\<close>

text \<open>Lines 162-170: the final result of a popped recognizer, or the exception raised
  on the way.\<close>

definition final_response :: "('m, 'h) vosk \<Rightarrow> 'h \<Rightarrow> exn + response" where
  "final_response V rec_session =
     (case fst (FinalResult V rec_session) of
        Inl e \<Rightarrow> Inl e
      | Inr result_str \<Rightarrow>
          (case (if result_str \<noteq> [] then json_loads V result_str else Inr (JObj [])) of
             Inl e \<Rightarrow> Inl e
           | Inr result \<Rightarrow>
               (case dict_get result ''text'' (JStr []) of
                  Inl e \<Rightarrow> Inl e
                | Inr t \<Rightarrow>
                    (case dict_get result ''confidence'' (JInt 0) of
                       Inl e \<Rightarrow> Inl e
                     | Inr c \<Rightarrow> Inr (200, TextBody t (Some c) ''final'')))))"

text \<open>Lines 149-174, entered with the lock of line 146 in the map. The \<^verbatim>\<open>finally\<close>
  block runs on every way out; an exception then reaches the handler of line 316.\<close>

definition end_of_utterance ::
  "('m, 'h) vosk \<Rightarrow> ('m, 'h) globals \<Rightarrow> string \<Rightarrow> (response \<times> ('m, 'h) globals) option" where
  "end_of_utterance V g session_id =
     (case acquire g session_id of
        None \<Rightarrow> None
      | Some g1 \<Rightarrow>
          (let rec_session = recognizers g1 session_id;
               g2 = g1\<lparr>recognizers := (recognizers g1)(session_id := None)\<rparr>;
               g3 = g2\<lparr>session_closed := insert session_id (session_closed g2)\<rparr>;
               outcome =
                 (case rec_session of
                    None \<Rightarrow> Inr empty_final
                  | Some h \<Rightarrow> final_response V h);
               g4 =
                 (case rec_session of
                    None \<Rightarrow> g3
                  | Some h \<Rightarrow> g3\<lparr>engine_calls := engine_calls g3 @ [GetFinal session_id]\<rparr>);
               g5 = g4\<lparr>session_locks := (session_locks g4)(session_id := None)\<rparr>;
               g6 = g5\<lparr>session_closed := session_closed g5 - {session_id}\<rparr>;
               g7 = release g6 session_id
           in Some (case outcome of
                      Inl e \<Rightarrow> (500, ErrorBody (Uncaught e))
                    | Inr r \<Rightarrow> r,
                    g7)))"

text \<open>Lines 288-296 and 298-305: the response built from the engine's JSON text.\<close>

definition result_response :: "('m, 'h) vosk \<Rightarrow> exn + string \<Rightarrow> exn + response" where
  "result_response V r =
     (case r of
        Inl e \<Rightarrow> Inl e
      | Inr result_str \<Rightarrow>
          (case json_loads V result_str of
             Inl e \<Rightarrow> Inl e
           | Inr result \<Rightarrow>
               (case dict_get result ''text'' (JStr []) of
                  Inl e \<Rightarrow> Inl e
                | Inr t \<Rightarrow>
                    (case dict_get result ''confidence'' (JInt 0) of
                       Inl e \<Rightarrow> Inl e
                     | Inr c \<Rightarrow> Inr (200, TextBody t (Some c) ''final'')))))"

definition partial_response :: "('m, 'h) vosk \<Rightarrow> exn + string \<Rightarrow> exn + response" where
  "partial_response V r =
     (case r of
        Inl e \<Rightarrow> Inl e
      | Inr partial_str \<Rightarrow>
          (case json_loads V partial_str of
             Inl e \<Rightarrow> Inl e
           | Inr partial \<Rightarrow>
               (case dict_get partial ''partial'' (JStr []) of
                  Inl e \<Rightarrow> Inl e
                | Inr t \<Rightarrow> Inr (200, TextBody t None ''partial''))))"

definition caught_306 :: "exn + response \<Rightarrow> response" where
  "caught_306 r = (case r of Inl e \<Rightarrow> (500, ErrorBody (VoskFailed e)) | Inr resp \<Rightarrow> resp)"

text \<open>Lines 286-305 on the session's recognizer \<open>local_rec\<close>. The recognizer is an
  object changed in place, so its entry in \<open>recognizers\<close> follows each call.\<close>

definition accept_fragment ::
  "('m, 'h) vosk \<Rightarrow> ('m, 'h) globals \<Rightarrow> string \<Rightarrow> 'h \<Rightarrow> byte list
     \<Rightarrow> response \<times> ('m, 'h) globals" where
  "accept_fragment V g session_id local_rec audio_bytes =
     (let accept_result = fst (AcceptWaveform V local_rec audio_bytes);
          h1 = snd (AcceptWaveform V local_rec audio_bytes);
          g1 = g\<lparr>recognizers := (recognizers g)(session_id \<mapsto> h1),
                 engine_calls := engine_calls g @ [Accept session_id audio_bytes]\<rparr>
      in case accept_result of
           Inl e \<Rightarrow> ((500, ErrorBody (VoskFailed e)), g1)
         | Inr True \<Rightarrow>
             (caught_306 (result_response V (fst (Result V h1))),
              g1\<lparr>recognizers := (recognizers g1)(session_id \<mapsto> snd (Result V h1)),
                  engine_calls := engine_calls g1 @ [GetResult session_id]\<rparr>)
         | Inr False \<Rightarrow>
             (caught_306 (partial_response V (fst (PartialResult V h1))),
              g1\<lparr>recognizers := (recognizers g1)(session_id \<mapsto> snd (PartialResult V h1)),
                  engine_calls := engine_calls g1 @ [GetPartial session_id]\<rparr>))"

text \<open>Lines 265-305, inside \<^verbatim>\<open>with lock:\<close>.\<close>

definition locked_section ::
  "('m, 'h) vosk \<Rightarrow> 'm \<Rightarrow> ('m, 'h) globals \<Rightarrow> string \<Rightarrow> byte list
     \<Rightarrow> response \<times> ('m, 'h) globals" where
  "locked_section V m g session_id audio_bytes =
     (if session_id \<in> session_closed g then (empty_partial, g)
      else
        (case recognizers g session_id of
           Some local_rec \<Rightarrow> accept_fragment V g session_id local_rec audio_bytes
         | None \<Rightarrow>
             (let g1 = g\<lparr>engine_calls := engine_calls g @ [Create]\<rparr>
              in case KaldiRecognizer V m 16000 of
                   Inl e \<Rightarrow> ((500, ErrorBody (CreateFailed e)), g1)
                 | Inr local_rec \<Rightarrow>
                     accept_fragment V
                       (g1\<lparr>recognizers := (recognizers g1)(session_id \<mapsto> local_rec)\<rparr>)
                       session_id local_rec audio_bytes)))"

text \<open>Lines 177-314: the branch for an ordinary audio fragment.\<close>

definition audio_fragment ::
  "('m, 'h) vosk \<Rightarrow> 'm \<Rightarrow> ('m, 'h) globals \<Rightarrow> string \<Rightarrow> byte list
     \<Rightarrow> (response \<times> ('m, 'h) globals) option" where
  "audio_fragment V m g session_id audio_data =
     (if length audio_data = 0 then Some ((400, ErrorBody EmptyAudio), g)
      else if length audio_data mod 4 \<noteq> 0
      then Some ((400, ErrorBody (BadLength (length audio_data))), g)
      else
        (case to_int16 audio_data of
           Inl e \<Rightarrow> Some ((400, ErrorBody (ConversionFailed e)), g)
         | Inr None \<Rightarrow> Some ((400, ErrorBody EmptyFloat), g)
         | Inr (Some int16_data) \<Rightarrow>
             (case normalize_pcm int16_data of
                TooShort \<Rightarrow> Some (empty_partial, g)
              | Raised e \<Rightarrow> Some ((500, ErrorBody (VoskFailed e)), g)
              | Ready audio_bytes \<Rightarrow>
                  (case acquire (setdefault_lock g session_id) session_id of
                     None \<Rightarrow> None
                   | Some g1 \<Rightarrow>
                       Some (fst (locked_section V m g1 session_id audio_bytes),
                             release (snd (locked_section V m g1 session_id audio_bytes))
                               session_id)))))"

definition recognize_audio_stream ::
  "('m, 'h) vosk \<Rightarrow> ('m, 'h) globals \<Rightarrow> request
     \<Rightarrow> (response \<times> ('m, 'h) globals) option" where
  "recognize_audio_stream V g request =
     (case model g of
        None \<Rightarrow> Some ((500, ErrorBody ModelNotInitialised), g)
      | Some m \<Rightarrow>
          (let session_id = session_id_of request;
               end_of_utt = end_of_utt_of request;
               g1 = setdefault_lock g session_id
           in if end_of_utt then end_of_utterance V g1 session_id
              else audio_fragment V m g1 session_id (body request)))"

subsection \<open>The handler of /reset (lines 327-347)\<close>

definition reset_recognizer ::
  "('m, 'h) vosk \<Rightarrow> ('m, 'h) globals \<Rightarrow> response \<times> ('m, 'h) globals" where
  "reset_recognizer V g =
     (case model g of
        None \<Rightarrow> ((500, ErrorBody ModelNotInitialised), g)
      | Some m \<Rightarrow>
          (let g1 = g\<lparr>engine_calls := engine_calls g @ [Create]\<rparr>
           in case KaldiRecognizer V m 16000 of
                Inl e \<Rightarrow> ((500, ErrorBody (Uncaught e)), g1)
              | Inr h \<Rightarrow> ((200, ResetBody), g1\<lparr>rec := Some h\<rparr>)))"

subsection \<open>The normaliser as the specification words it\<close>

text \<open>Section 4.1, steps 2 to 4, per sample: NaN becomes 0.0, an infinity becomes 1.0
  with its sign; the value is clamped to the interval from -1.0 to 1.0; it is multiplied
  by 32767 and truncated to a 16-bit integer.\<close>

definition sanitize_non_finite :: "f32 \<Rightarrow> f32" where
  "sanitize_non_finite x =
     (if x = NaN then Fin False 0 0
      else if x = Inf False then Fin False 1 0
      else if x = Inf True then Fin True 1 0
      else x)"

definition clamp_unit :: "f32 \<Rightarrow> f32" where
  "clamp_unit x =
     (case x of
        Fin s m e \<Rightarrow> if above_one m e then Fin s 1 0 else Fin s m e
      | Inf s \<Rightarrow> Fin s 1 0
      | NaN \<Rightarrow> NaN)"

definition quantize_sample :: "f32 \<Rightarrow> int16" where
  "quantize_sample x = astype_int16 (mul_32767 (clamp_unit (sanitize_non_finite x)))"

text \<open>
  What steps 2 to 4 mean for the number a sample stands for, stated without the float32
  operations. \<open>q\<close> is not positive for a negative sample and not negative otherwise. For NaN it is 0; for an infinity or a
  magnitude above 1 its magnitude is 32767. For a magnitude \<open>v = m * 2 ^ e\<close> of at most 1
  the magnitude \<open>k\<close> of \<open>q\<close> is the integer part of a number within \<open>1 / 1024\<close> of
  \<open>v * 32767\<close> (a float32 product is rounded, to 24 bits): \<open>k \<le> v * 32767 + 1 / 1024\<close>
  and \<open>v * 32767 - 1 / 1024 < k + 1\<close>. For a negative exponent both inequalities are
  multiplied by \<open>1024 * 2 ^ (- e)\<close>; for an exponent \<open>e \<ge> 0\<close> the product is an integer
  and \<open>k\<close> equals it.
\<close>

definition near_product :: "nat \<Rightarrow> int \<Rightarrow> nat \<Rightarrow> bool" where
  "near_product m e k =
     (if 0 \<le> e then k = m * 2 ^ nat e * 32767
      else 1024 * k * 2 ^ nat (- e) \<le> 1024 * (m * 32767) + 2 ^ nat (- e)
         \<and> 1024 * (m * 32767) < 1024 * (k + 1) * 2 ^ nat (- e) + 2 ^ nat (- e))"

definition quantized_ok :: "f32 \<Rightarrow> int16 \<Rightarrow> bool" where
  "quantized_ok x q =
     (case x of
        NaN \<Rightarrow> q = 0
      | Inf s \<Rightarrow> sint q = (if s then - 32767 else 32767)
      | Fin s m e \<Rightarrow>
          (if s then sint q \<le> 0 else 0 \<le> sint q)
          \<and> (if above_one m e then nat \<bar>sint q\<bar> = 32767
               else near_product m e (nat \<bar>sint q\<bar>)))"

text \<open>Section 4.1, step 8: one pass from left to right; a sample further than 20000 from
  its predecessor, as the pass left it, takes the predecessor's value.\<close>

fun declick_pass :: "int16 \<Rightarrow> int16 list \<Rightarrow> int16 list" where
  "declick_pass prev [] = []"
| "declick_pass prev (x # xs) =
     (if \<bar>sint x - sint prev\<bar> > 20000 then prev # declick_pass prev xs
      else x # declick_pass x xs)"

definition declick_spec :: "int16 list \<Rightarrow> int16 list" where
  "declick_spec xs = (case xs of [] \<Rightarrow> [] | x # rest \<Rightarrow> x # declick_pass x rest)"

subsection \<open>Observations and sample inputs\<close>

text \<open>The engine calls a handler added to the trace.\<close>

definition new_calls :: "('m, 'h) globals \<Rightarrow> ('m, 'h) globals \<Rightarrow> engine_call list" where
  "new_calls g g' = drop (length (engine_calls g)) (engine_calls g')"

text \<open>A small engine: a recognizer counts the bytes it accepted, never reports an
  utterance boundary and returns empty JSON objects.\<close>

definition demo_vosk :: "(unit, nat) vosk" where
  "demo_vosk =
     \<lparr>KaldiRecognizer = (\<lambda>m rate. Inr 0),
      AcceptWaveform = (\<lambda>h b. (Inr False, h + length b)),
      Result = (\<lambda>h. (Inr ''{}'', h)),
      PartialResult = (\<lambda>h. (Inr ''{}'', h)),
      FinalResult = (\<lambda>h. (Inr ''{}'', h)),
      json_loads = (\<lambda>s. Inr (JObj []))\<rparr>"

text \<open>The same engine with an \<^verbatim>\<open>AcceptWaveform\<close> that raises.\<close>

definition failing_vosk :: "(unit, nat) vosk" where
  "failing_vosk = demo_vosk\<lparr>AcceptWaveform := (\<lambda>h b. (Inl ''boom'', h))\<rparr>"

text \<open>The same engine with a decoder that finds the partial text "hello" in every
  result.\<close>

definition talking_vosk :: "(unit, nat) vosk" where
  "talking_vosk = demo_vosk\<lparr>json_loads := (\<lambda>s. Inr (JObj [(''partial'', JStr ''hello'')]))\<rparr>"

text \<open>The globals after start-up: the model loaded, no session.\<close>

definition g_init :: "(unit, nat) globals" where
  "g_init =
     \<lparr>model = Some (), rec = Some 0, recognizers = Map.empty, session_locks = Map.empty,
      session_closed = {}, engine_calls = []\<rparr>"

definition fragment :: "string \<Rightarrow> byte list \<Rightarrow> request" where
  "fragment sid b =
     \<lparr>hdr_session_id = Some sid, arg_session_id = None, remote_addr = None,
      hdr_end_of_utterance = None, body = b\<rparr>"

definition end_request :: "string \<Rightarrow> request" where
  "end_request sid =
     \<lparr>hdr_session_id = Some sid, arg_session_id = None, remote_addr = None,
      hdr_end_of_utterance = Some ''true'', body = []\<rparr>"

text \<open>320 float32 samples of silence; and the sample 1.0 followed by 319 zeros.\<close>

definition silence :: "byte list" where
  "silence = replicate 1280 0"

definition click :: "byte list" where
  "click = [0, 0, 128, 63] @ replicate 1276 0"

text \<open>The globals inside \<^verbatim>\<open>with lock:\<close>, the session's lock held.\<close>

definition locked :: "('m, 'h) globals \<Rightarrow> string \<Rightarrow> ('m, 'h) globals" where
  "locked g sid = g\<lparr>session_locks := (session_locks g)(sid \<mapsto> True)\<rparr>"

text \<open>The test of line 249 at index \<open>j\<close>.\<close>

definition jump_at :: "int16 list \<Rightarrow> nat \<Rightarrow> bool" where
  "jump_at xs j = (\<bar>sint (xs ! j) - sint (xs ! (j - 1))\<bar> > 20000)"

section \<open>Properties\<close>

subsection \<open>Lengths through the normaliser\<close>

lemma length_tobytes: "length (tobytes xs) = 2 * length xs"
  by (induction xs) (simp_all add: tobytes_def to_le16_def)

lemma length_le16_items: "length (le16_items bs) = length bs div 2"
  by (induction bs rule: le16_items.induct) simp_all

lemma length_f32_items: "length (f32_items bs) = length bs div 4"
  by (induction bs rule: f32_items.induct) simp_all

lemma declick_loop_length:
  "declick_loop i a = Inr a' \<Longrightarrow> length (data a') = length (data a)"
proof (induction i a rule: declick_loop.induct)
  case (1 i a)
  show ?case
  proof (cases "i < length (data a)")
    case False
    with "1.prems" show ?thesis by (simp add: declick_loop.simps)
  next
    case True
    note lt = this
    show ?thesis
    proof (cases "\<bar>sint (data a ! i) - sint (data a ! (i - 1))\<bar> > 20000")
      case False
      with lt "1.prems" "1.IH"(2) show ?thesis
        by (simp add: declick_loop.simps [of i a])
    next
      case True
      with lt "1.prems" obtain b where b: "setitem a i (data a ! (i - 1)) = Inr b"
        and r: "declick_loop (Suc i) b = Inr a'"
        by (auto simp: declick_loop.simps [of i a] split: sum.splits)
      from "1.IH"(1) [OF lt True b r] have "length (data a') = length (data b)" .
      moreover from b have "length (data b) = length (data a)"
        by (auto simp: setitem_def split: if_splits)
      ultimately show ?thesis by simp
    qed
  qed
qed

lemma truncate_pcm_length:
  "length (truncate_pcm bs) = min max_bytes (length bs - length bs mod 2)"
  by (auto simp: truncate_pcm_def Let_def max_bytes_def min_def)

lemma declick_lengths:
  assumes "declick bs = Inr (ab, smp)"
  shows "length ab = length bs \<and> length (data smp) = length bs div 2 \<and> even (length bs)"
  using assms
  by (auto simp: declick_def frombuffer_i16_def Let_def length_le16_items length_tobytes
           split: if_splits sum.splits dest!: declick_loop_length)

lemma reaches_padding_lengths:
  assumes long: "640 \<le> length (tobytes int16_data)"
    and d: "declick (truncate_pcm (tobytes int16_data)) = Inr (audio_bytes, audio_samples)"
  shows "length audio_bytes = min 32000 (2 * length int16_data)"
    and "length (data audio_samples) = min 16000 (length int16_data)"
proof -
  have t: "length (truncate_pcm (tobytes int16_data)) = min 32000 (2 * length int16_data)"
    by (simp add: truncate_pcm_length length_tobytes max_bytes_def)
  from declick_lengths [OF d] t show "length audio_bytes = min 32000 (2 * length int16_data)"
    by simp
  from declick_lengths [OF d] t
  show "length (data audio_samples) = min 16000 (length int16_data)"
    by (simp add: min_def split: if_splits)
qed

lemma normalize_pcm_Ready:
  assumes "normalize_pcm int16_data = Ready pcm"
  shows "even (length pcm) \<and> 640 \<le> length pcm \<and> length pcm \<le> 32000"
proof -
  from assms have long: "640 \<le> length (tobytes int16_data)"
    by (auto simp: normalize_pcm_def Let_def split: if_splits)
  with assms obtain ab smp
    where d: "declick (truncate_pcm (tobytes int16_data)) = Inr (ab, smp)"
      and p: "pcm = fst (pad_min (ab, smp))"
    by (auto simp: normalize_pcm_def Let_def split: if_splits sum.splits)
  from reaches_padding_lengths [OF long d] long
  have l: "length ab = min 32000 (2 * length int16_data)"
    and s: "320 \<le> length (data smp)"
    by (simp_all add: length_tobytes)
  from s have "\<not> pad_needed smp" by (simp add: pad_needed_def min_samples_def)
  with p have "pcm = ab" by (simp add: pad_min_def)
  with l long show ?thesis by (simp add: length_tobytes min_def)
qed

subsection \<open>The engine calls of a request\<close>

lemma engine_calls_setdefault_lock [simp]:
  "engine_calls (setdefault_lock g sid) = engine_calls g"
  by (simp add: setdefault_lock_def split: option.splits)

lemma engine_calls_release [simp]: "engine_calls (release g sid) = engine_calls g"
  by (simp add: release_def split: option.splits)

lemma engine_calls_acquire: "acquire g sid = Some g1 \<Longrightarrow> engine_calls g1 = engine_calls g"
  by (auto simp: acquire_def split: if_splits)

lemma accept_fragment_calls:
  "\<exists>cs. engine_calls (snd (accept_fragment V g sid h pcm)) = engine_calls g @ Accept sid pcm # cs
        \<and> (\<forall>s b. Accept s b \<notin> set cs)"
  by (simp add: accept_fragment_def Let_def split: sum.splits bool.splits)

lemma locked_section_calls:
  "\<exists>cs. engine_calls (snd (locked_section V m g sid pcm)) = engine_calls g @ cs
        \<and> (\<forall>s b. Accept s b \<in> set cs \<longrightarrow> s = sid \<and> b = pcm)"
proof (cases "sid \<in> session_closed g")
  case True
  then show ?thesis by (simp add: locked_section_def)
next
  case False
  show ?thesis
  proof (cases "recognizers g sid")
    case (Some h)
    from accept_fragment_calls [of V g sid h pcm] obtain cs
      where "engine_calls (snd (accept_fragment V g sid h pcm)) = engine_calls g @ Accept sid pcm # cs"
        and "\<forall>s b. Accept s b \<notin> set cs" by blast
    with False Some show ?thesis by (simp add: locked_section_def)
  next
    case None
    show ?thesis
    proof (cases "KaldiRecognizer V m 16000")
      case (Inl e)
      with False None show ?thesis by (simp add: locked_section_def Let_def)
    next
      case (Inr h)
      let ?g1 = "g\<lparr>engine_calls := engine_calls g @ [Create]\<rparr>\<lparr>recognizers := (recognizers (g\<lparr>engine_calls := engine_calls g @ [Create]\<rparr>))(sid \<mapsto> h)\<rparr>"
      from accept_fragment_calls [of V ?g1 sid h pcm] obtain cs
        where "engine_calls (snd (accept_fragment V ?g1 sid h pcm)) = engine_calls ?g1 @ Accept sid pcm # cs"
          and "\<forall>s b. Accept s b \<notin> set cs" by blast
      with False None Inr show ?thesis by (simp add: locked_section_def Let_def)
    qed
  qed
qed

lemma audio_fragment_calls:
  assumes "audio_fragment V m g sid d = Some (resp, g')"
  shows "\<exists>cs. engine_calls g' = engine_calls g @ cs
          \<and> (\<forall>s b. Accept s b \<in> set cs \<longrightarrow>
                (\<exists>xs. to_int16 d = Inr (Some xs) \<and> normalize_pcm xs = Ready b))"
proof (cases "\<exists>xs b. to_int16 d = Inr (Some xs) \<and> normalize_pcm xs = Ready b
                \<and> length d \<noteq> 0 \<and> length d mod 4 = 0")
  case False
  with assms have "engine_calls g' = engine_calls g"
    by (auto simp: audio_fragment_def split: if_splits sum.splits option.splits norm_outcome.splits)
  then show ?thesis by simp
next
  case True
  then obtain xs pcm where x: "to_int16 d = Inr (Some xs)" and n: "normalize_pcm xs = Ready pcm"
    and l: "length d \<noteq> 0" "length d mod 4 = 0" by auto
  with assms obtain g1 where a: "acquire (setdefault_lock g sid) sid = Some g1"
    and g': "g' = release (snd (locked_section V m g1 sid pcm)) sid"
    by (auto simp: audio_fragment_def split: option.splits)
  from locked_section_calls [of V m g1 sid pcm] obtain cs
    where "engine_calls (snd (locked_section V m g1 sid pcm)) = engine_calls g1 @ cs"
      and "\<forall>s b. Accept s b \<in> set cs \<longrightarrow> s = sid \<and> b = pcm" by blast
  with g' engine_calls_acquire [OF a] x n show ?thesis by auto
qed

lemma end_of_utterance_calls:
  assumes "end_of_utterance V g sid = Some (resp, g')"
  shows "\<exists>cs. engine_calls g' = engine_calls g @ cs \<and> (\<forall>s b. Accept s b \<notin> set cs)"
  using assms
  by (auto simp: end_of_utterance_def Let_def dest!: engine_calls_acquire
           split: option.splits)

subsection \<open>The handlers on the sample inputs\<close>

lemma sid_fragment: "session_id_of (fragment ''s'' b) = ''s''"
  by (simp add: session_id_of_def fragment_def py_or_def truthy_def)

lemma eou_fragment: "\<not> end_of_utt_of (fragment sid b)"
  by (simp add: end_of_utt_of_def fragment_def lower_char_def)

lemma decode_zero: "decode_f32 (of_le32 0 0 0 0) = Fin False 0 (- 149)"
  by (simp add: decode_f32_def of_le32_def)

lemma f32_items_zeros: "f32_items (replicate (4 * n) 0) = replicate n (Fin False 0 (- 149))"
proof (induction n)
  case 0
  show ?case by simp
next
  case (Suc n)
  have "replicate (4 * Suc n) (0::byte) = 0 # 0 # 0 # 0 # replicate (4 * n) 0"
    by (simp add: numeral_eq_Suc)
  with Suc show ?case by (simp add: decode_zero)
qed

lemma quantize_zero:
  "astype_int16 (mul_32767 (clip (Fin False 0 (- 149)))) = 0"
  by (simp add: clip_def above_one_def mul_32767_def bitlen_nat.simps [of 0] round_shift_def
        astype_int16_def trunc_mag_def)

lemma to_int16_zeros:
  "0 < n \<Longrightarrow> to_int16 (replicate (4 * n) 0) = Inr (Some (replicate n 0))"
  by (simp add: to_int16_def scale_float_data_def frombuffer_f32_def f32_items_zeros isnan_def isinf_def
        list_ex_iff quantize_zero)

lemma to_int16_silence: "to_int16 silence = Inr (Some (replicate 320 0))"
  using to_int16_zeros [of 320] by (simp add: silence_def)

lemma tobytes_zeros: "tobytes (replicate n 0) = replicate (2 * n) 0"
  by (induction n) (simp_all add: tobytes_def to_le16_def)

lemma le16_items_zeros: "le16_items (replicate (2 * n) 0) = replicate n 0"
  by (induction n) (simp_all add: of_le16_def)

lemma abs_diff_zeros: "abs_diff (replicate (Suc n) 0) = replicate n 0"
  by (induction n) simp_all

lemma fold_max_zeros: "0 \<le> x \<Longrightarrow> fold max (replicate n (0::int)) x = x"
  by (induction n arbitrary: x) (simp_all add: max_def)

lemma np_max_zeros: "np_max (replicate n 0) = 0"
  by (cases n) (simp_all add: fold_max_zeros del: fold_replicate)

lemma declick_zeros:
  "0 < n \<Longrightarrow> declick (replicate (2 * n) 0) =
     Inr (replicate (2 * n) 0, \<lparr>data = replicate n 0, writeable = False\<rparr>)"
proof -
  assume "0 < n"
  then obtain k where n: "n = Suc k" by (cases n) auto
  have i: "le16_items (replicate (2 * n) 0) = replicate n 0"
    by (rule le16_items_zeros)
  have a: "abs_diff (replicate n 0) = replicate k 0"
    unfolding n by (rule abs_diff_zeros)
  show ?thesis
    unfolding declick_def frombuffer_i16_def
    by (simp add: i a np_max_zeros del: replicate_Suc le16_items.simps)
qed

lemma normalize_pcm_zeros:
  assumes "320 \<le> n" and "n \<le> 16000"
  shows "normalize_pcm (replicate n 0) = Ready (replicate (2 * n) 0)"
proof -
  have t: "truncate_pcm (replicate (2 * n) 0) = replicate (2 * n) 0"
    using assms by (simp add: truncate_pcm_def max_bytes_def)
  have d: "declick (replicate (2 * n) 0)
     = Inr (replicate (2 * n) 0, \<lparr>data = replicate n 0, writeable = False\<rparr>)"
    using assms by (intro declick_zeros) simp
  have p: "pad_min (replicate (2 * n) 0, \<lparr>data = replicate n 0, writeable = False\<rparr>)
     = (replicate (2 * n) 0, \<lparr>data = replicate n 0, writeable = False\<rparr>)"
    using assms by (simp add: pad_min_def pad_needed_def min_samples_def)
  show ?thesis
    unfolding normalize_pcm_def tobytes_zeros Let_def t d using assms by (simp add: p)
qed

lemma normalize_pcm_silence: "normalize_pcm (replicate 320 0) = Ready (replicate 640 0)"
  using normalize_pcm_zeros [of 320] by simp

lemma silence_run:
  "recognize_audio_stream demo_vosk g_init (fragment ''s'' silence) =
     Some (empty_partial,
           g_init\<lparr>recognizers := [''s'' \<mapsto> 640], session_locks := [''s'' \<mapsto> False],
                  engine_calls := [Create, Accept ''s'' (replicate 640 0), GetPartial ''s'']\<rparr>)"
proof -
  have b: "body (fragment ''s'' silence) = silence" by (simp add: fragment_def)
  have l: "length silence = 1280" by (simp add: silence_def)
  show ?thesis
    by (simp add: recognize_audio_stream_def g_init_def sid_fragment eou_fragment b l
          audio_fragment_def to_int16_silence normalize_pcm_silence setdefault_lock_def
          acquire_def locked_section_def accept_fragment_def demo_vosk_def release_def
          caught_306_def partial_response_def dict_get_def empty_partial_def Let_def)
qed

subsection \<open>The buffer handed to the engine\<close>

lemma recognize_audio_stream_loaded:
  "model g = Some m \<Longrightarrow>
   recognize_audio_stream V g request =
     (if end_of_utt_of request
      then end_of_utterance V (setdefault_lock g (session_id_of request)) (session_id_of request)
      else audio_fragment V m (setdefault_lock g (session_id_of request))
             (session_id_of request) (body request))"
  by (simp add: recognize_audio_stream_def Let_def)

lemma recognize_audio_stream_calls:
  assumes "recognize_audio_stream V g request = Some (resp, g')"
  shows "\<exists>cs. engine_calls g' = engine_calls g @ cs
          \<and> (\<forall>s b. Accept s b \<in> set cs \<longrightarrow>
                (\<exists>xs. to_int16 (body request) = Inr (Some xs) \<and> normalize_pcm xs = Ready b))"
proof (cases "model g")
  case None
  with assms show ?thesis by (simp add: recognize_audio_stream_def)
next
  case (Some m)
  let ?sid = "session_id_of request"
  show ?thesis
  proof (cases "end_of_utt_of request")
    case True
    with Some assms have "end_of_utterance V (setdefault_lock g ?sid) ?sid = Some (resp, g')"
      by (simp add: recognize_audio_stream_loaded)
    from end_of_utterance_calls [OF this] show ?thesis by auto
  next
    case False
    with Some assms
    have "audio_fragment V m (setdefault_lock g ?sid) ?sid (body request) = Some (resp, g')"
      by (simp add: recognize_audio_stream_loaded)
    from audio_fragment_calls [OF this] show ?thesis by simp
  qed
qed

text \<open>
  C3. Every buffer that a request to /recognize\_stream hands to the engine's
  \<^verbatim>\<open>AcceptWaveform\<close> has an even number of bytes, at least 640 and at most 32000.
\<close>

theorem engine_buffer_bounds:
  assumes "recognize_audio_stream V g request = Some (resp, g')"
    and "Accept sid pcm \<in> set (new_calls g g')"
  shows "even (length pcm) \<and> 640 \<le> length pcm \<and> length pcm \<le> 32000"
proof -
  from recognize_audio_stream_calls [OF assms(1)] obtain cs
    where cs: "engine_calls g' = engine_calls g @ cs"
      and a: "\<forall>s b. Accept s b \<in> set cs \<longrightarrow>
                (\<exists>xs. to_int16 (body request) = Inr (Some xs) \<and> normalize_pcm xs = Ready b)"
    by blast
  from cs have "new_calls g g' = cs" by (simp add: new_calls_def)
  with assms(2) a obtain xs where "normalize_pcm xs = Ready pcm" by blast
  then show ?thesis by (rule normalize_pcm_Ready)
qed

theorem engine_buffer_bounds_witness:
  "recognize_audio_stream demo_vosk g_init (fragment ''s'' silence) =
     Some (empty_partial,
           g_init\<lparr>recognizers := [''s'' \<mapsto> 640], session_locks := [''s'' \<mapsto> False],
                  engine_calls := [Create, Accept ''s'' (replicate 640 0), GetPartial ''s'']\<rparr>)
   \<and> Accept ''s'' (replicate 640 0)
       \<in> set (new_calls g_init
                (g_init\<lparr>recognizers := [''s'' \<mapsto> 640], session_locks := [''s'' \<mapsto> False],
                   engine_calls := [Create, Accept ''s'' (replicate 640 0), GetPartial ''s'']\<rparr>))
   \<and> even (length (replicate 640 (0::byte)))
   \<and> 640 \<le> length (replicate 640 (0::byte))
   \<and> length (replicate 640 (0::byte)) \<le> 32000"
proof -
  have n: "Accept ''s'' (replicate 640 0)
       \<in> set (new_calls g_init
                (g_init\<lparr>recognizers := [''s'' \<mapsto> 640], session_locks := [''s'' \<mapsto> False],
                   engine_calls := [Create, Accept ''s'' (replicate 640 0), GetPartial ''s'']\<rparr>))"
    by (simp add: new_calls_def g_init_def)
  from engine_buffer_bounds [OF silence_run n] silence_run n show ?thesis by blast
qed

text \<open>
  C10. The padding branch of lines 254-259 is never taken: a buffer that passed the
  too-short return of line 225 reaches line 254 with at least 320 samples, so
  \<open>pad_needed\<close> is false, \<open>pad_min\<close> changes nothing and the engine gets the buffer
  without padding.
\<close>

theorem padding_unreachable:
  assumes "640 \<le> length (tobytes int16_data)"
    and "declick (truncate_pcm (tobytes int16_data)) = Inr (audio_bytes, audio_samples)"
  shows "320 \<le> length (data audio_samples)
       \<and> \<not> pad_needed audio_samples
       \<and> pad_min (audio_bytes, audio_samples) = (audio_bytes, audio_samples)
       \<and> normalize_pcm int16_data = Ready audio_bytes"
proof -
  from reaches_padding_lengths(2) [OF assms] assms(1)
  have s: "320 \<le> length (data audio_samples)" by (simp add: length_tobytes)
  then have p: "\<not> pad_needed audio_samples" by (simp add: pad_needed_def min_samples_def)
  then have m: "pad_min (audio_bytes, audio_samples) = (audio_bytes, audio_samples)"
    by (simp add: pad_min_def)
  from assms m have "normalize_pcm int16_data = Ready audio_bytes"
    by (simp add: normalize_pcm_def Let_def)
  with s p m show ?thesis by simp
qed

theorem padding_unreachable_witness:
  "640 \<le> length (tobytes (replicate 320 0))
   \<and> declick (truncate_pcm (tobytes (replicate 320 0)))
       = Inr (replicate 640 0, \<lparr>data = replicate 320 0, writeable = False\<rparr>)
   \<and> \<not> pad_needed \<lparr>data = replicate 320 0, writeable = False\<rparr>
   \<and> normalize_pcm (replicate 320 0) = Ready (replicate 640 0)"
proof -
  have l: "640 \<le> length (tobytes (replicate 320 0))" by (simp add: length_tobytes)
  have t: "truncate_pcm (tobytes (replicate 320 0)) = replicate (2 * 320) 0"
    by (simp add: tobytes_zeros truncate_pcm_def max_bytes_def)
  have d: "declick (truncate_pcm (tobytes (replicate 320 0)))
       = Inr (replicate 640 0, \<lparr>data = replicate 320 0, writeable = False\<rparr>)"
    unfolding t using declick_zeros [of 320] by simp
  from padding_unreachable [OF l d] l d show ?thesis by simp
qed

subsection \<open>Rejected requests and /reset\<close>

lemma eou_end_request: "end_of_utt_of (end_request sid)"
  by (simp add: end_of_utt_of_def end_request_def lower_char_def)

lemma sid_end_request: "session_id_of (end_request ''s'') = ''s''"
  by (simp add: session_id_of_def end_request_def py_or_def truthy_def)

lemma setdefault_lock_fresh:
  "setdefault_lock g_init ''s'' = g_init\<lparr>session_locks := [''s'' \<mapsto> False]\<rparr>"
  by (simp add: setdefault_lock_def g_init_def)

text \<open>
  C5. With the model loaded, a request to /recognize\_stream without the end-of-utterance
  flag is answered 400 with the empty-audio error when its body is empty, and 400 with
  the bad-length error when the body length is not a multiple of 4. In both cases the
  answer is an error body and the handler makes no engine call: the globals after the
  request differ from those before by the lock of line 146 only.
\<close>

theorem invalid_fragment_rejected:
  assumes "model g = Some m" and "\<not> end_of_utt_of request"
  shows "(length (body request) = 0 \<longrightarrow>
            recognize_audio_stream V g request =
              Some ((400, ErrorBody EmptyAudio), setdefault_lock g (session_id_of request)))
       \<and> (length (body request) mod 4 \<noteq> 0 \<longrightarrow>
            recognize_audio_stream V g request =
              Some ((400, ErrorBody (BadLength (length (body request)))),
                    setdefault_lock g (session_id_of request)))
       \<and> engine_calls (setdefault_lock g (session_id_of request)) = engine_calls g"
  using assms by (auto simp: recognize_audio_stream_loaded audio_fragment_def)

theorem invalid_fragment_rejected_witness:
  "recognize_audio_stream demo_vosk g_init (fragment ''s'' []) =
     Some ((400, ErrorBody EmptyAudio), g_init\<lparr>session_locks := [''s'' \<mapsto> False]\<rparr>)
   \<and> recognize_audio_stream demo_vosk g_init (fragment ''s'' [0, 0, 0]) =
     Some ((400, ErrorBody (BadLength 3)), g_init\<lparr>session_locks := [''s'' \<mapsto> False]\<rparr>)
   \<and> engine_calls (g_init\<lparr>session_locks := [''s'' \<mapsto> False]\<rparr>) = engine_calls g_init"
proof -
  have m: "model g_init = Some ()" by (simp add: g_init_def)
  have b: "body (fragment ''s'' []) = []" "body (fragment ''s'' [0, 0, 0]) = [0, 0, 0]"
    by (simp_all add: fragment_def)
  from invalid_fragment_rejected [OF m eou_fragment, of "''s''" "[]" demo_vosk]
    invalid_fragment_rejected [OF m eou_fragment, of "''s''" "[0, 0, 0]" demo_vosk]
  show ?thesis by (simp add: b sid_fragment setdefault_lock_fresh)
qed

text \<open>
  C9. /reset leaves the streaming registry alone: the recognizer map, the lock map and
  the set of closed markers are the same after the request as before, whatever the
  state and whether or not the new recognizer could be created.
\<close>

theorem reset_keeps_sessions:
  "recognizers (snd (reset_recognizer V g)) = recognizers g
   \<and> session_locks (snd (reset_recognizer V g)) = session_locks g
   \<and> session_closed (snd (reset_recognizer V g)) = session_closed g"
  by (simp add: reset_recognizer_def Let_def split: option.splits sum.splits)

lemma reset_replaces_rec:
  "model g = Some m \<Longrightarrow> KaldiRecognizer V m 16000 = Inr h \<Longrightarrow>
   reset_recognizer V g = ((200, ResetBody), g\<lparr>engine_calls := engine_calls g @ [Create], rec := Some h\<rparr>)"
  by (simp add: reset_recognizer_def Let_def)

text \<open>
  C2, as the code has it. With the model loaded, a request without the end-of-utterance
  flag whose body is empty or not a multiple of 4 bytes long is answered 400, and after it
  the recognizer map and the closed markers are as before; the lock map is as before
  except that the session id has a (free) lock if it had none: line 146 creates it
  before the body is read.
\<close>

theorem invalid_fragment_registry:
  assumes "model g = Some m" and "\<not> end_of_utt_of request"
    and "length (body request) = 0 \<or> length (body request) mod 4 \<noteq> 0"
  shows "\<exists>resp g'. recognize_audio_stream V g request = Some (resp, g')
           \<and> fst resp = 400
           \<and> recognizers g' = recognizers g
           \<and> session_closed g' = session_closed g
           \<and> session_locks g' =
               (case session_locks g (session_id_of request) of
                  None \<Rightarrow> (session_locks g)(session_id_of request \<mapsto> False)
                | Some l \<Rightarrow> session_locks g)"
  using assms
  by (auto simp: recognize_audio_stream_loaded audio_fragment_def setdefault_lock_def
           split: option.splits)

theorem invalid_fragment_registry_witness:
  "\<exists>resp g'. recognize_audio_stream demo_vosk g_init (fragment ''s'' []) = Some (resp, g')
           \<and> fst resp = 400
           \<and> recognizers g' = recognizers g_init
           \<and> session_closed g' = session_closed g_init
           \<and> session_locks g' = (session_locks g_init)(''s'' \<mapsto> False)"
proof -
  have m: "model g_init = Some ()" by (simp add: g_init_def)
  have b: "length (body (fragment ''s'' [])) = 0 \<or> length (body (fragment ''s'' [])) mod 4 \<noteq> 0"
    by (simp add: fragment_def)
  have n: "session_locks g_init ''s'' = None" by (simp add: g_init_def)
  from invalid_fragment_registry [OF m eou_fragment b, of demo_vosk]
  show ?thesis by (simp add: sid_fragment n)
qed

text \<open>The claim C2 as stated fails: the first request of a session with an empty body
  is rejected, and the lock map has a new entry afterwards.\<close>

theorem invalid_fragment_lock_counterexample:
  "recognize_audio_stream demo_vosk g_init (fragment ''s'' []) =
     Some ((400, ErrorBody EmptyAudio), g_init\<lparr>session_locks := [''s'' \<mapsto> False]\<rparr>)
   \<and> session_locks (g_init\<lparr>session_locks := [''s'' \<mapsto> False]\<rparr>) ''s'' = Some False
   \<and> session_locks g_init ''s'' = None
   \<and> session_locks (g_init\<lparr>session_locks := [''s'' \<mapsto> False]\<rparr>) \<noteq> session_locks g_init"
proof -
  have r: "recognize_audio_stream demo_vosk g_init (fragment ''s'' []) =
     Some ((400, ErrorBody EmptyAudio), g_init\<lparr>session_locks := [''s'' \<mapsto> False]\<rparr>)"
  proof -
    have m: "model g_init = Some ()" by (simp add: g_init_def)
    have b: "body (fragment ''s'' []) = []" by (simp add: fragment_def)
    show ?thesis
      by (simp add: recognize_audio_stream_loaded [OF m] eou_fragment sid_fragment b
            audio_fragment_def setdefault_lock_fresh)
  qed
  have n: "session_locks g_init ''s'' = None" by (simp add: g_init_def)
  have s: "session_locks (g_init\<lparr>session_locks := [''s'' \<mapsto> False]\<rparr>) ''s'' = Some False"
    by simp
  have d: "session_locks (g_init\<lparr>session_locks := [''s'' \<mapsto> False]\<rparr>) \<noteq> session_locks g_init"
  proof
    assume "session_locks (g_init\<lparr>session_locks := [''s'' \<mapsto> False]\<rparr>) = session_locks g_init"
    then have "session_locks (g_init\<lparr>session_locks := [''s'' \<mapsto> False]\<rparr>) ''s''
      = session_locks g_init ''s''" by (rule fun_cong)
    with n s show False by simp
  qed
  show ?thesis
    apply (intro conjI)
       apply (rule r)
      apply (rule s)
     apply (rule n)
    apply (rule d)
    done
qed

subsection \<open>Closing a session\<close>

lemma to_int16_Some:
  assumes "to_int16 d = Inr (Some xs)"
  shows "length d \<noteq> 0 \<and> length d mod 4 = 0 \<and> length xs = length d div 4"
  using assms
  by (auto simp: to_int16_def scale_float_data_def frombuffer_f32_def Let_def length_f32_items
           split: if_splits)

lemma end_of_utterance_result:
  assumes "session_locks g sid \<noteq> Some True"
  shows "\<exists>resp g'. end_of_utterance V g sid = Some (resp, g')
           \<and> model g' = model g
           \<and> recognizers g' = (recognizers g)(sid := None)
           \<and> session_locks g' = (session_locks g)(sid := None)
           \<and> session_closed g' = session_closed g - {sid}
           \<and> (recognizers g sid = None \<longrightarrow> resp = empty_final \<and> engine_calls g' = engine_calls g)"
proof -
  from assms obtain g1 where a: "acquire g sid = Some g1"
    and g1: "g1 = g\<lparr>session_locks := (session_locks g)(sid \<mapsto> True)\<rparr>"
    by (simp add: acquire_def)
  show ?thesis
    unfolding end_of_utterance_def a option.case Let_def
    by (simp add: g1 release_def split: option.splits)
qed

lemma setdefault_lock_fields [simp]:
  "model (setdefault_lock g sid) = model g"
  "recognizers (setdefault_lock g sid) = recognizers g"
  "session_closed (setdefault_lock g sid) = session_closed g"
  by (simp_all add: setdefault_lock_def split: option.splits)

lemma setdefault_lock_free:
  "session_locks g sid \<noteq> Some True \<Longrightarrow> session_locks (setdefault_lock g sid) sid = Some False"
  by (auto simp: setdefault_lock_def split: option.splits)

lemma setdefault_lock_other:
  "session_locks g sid \<noteq> Some True \<Longrightarrow>
   (session_locks (setdefault_lock g sid))(sid := None) = (session_locks g)(sid := None)"
  by (auto simp: setdefault_lock_def split: option.splits)

lemma close_request:
  assumes m: "model g = Some m" and e: "end_of_utt_of request"
    and l: "session_locks g (session_id_of request) \<noteq> Some True"
  shows "\<exists>resp g'. recognize_audio_stream V g request = Some (resp, g')
           \<and> model g' = model g
           \<and> recognizers g' = (recognizers g)(session_id_of request := None)
           \<and> session_locks g' = (session_locks g)(session_id_of request := None)
           \<and> session_closed g' = session_closed g - {session_id_of request}
           \<and> (recognizers g (session_id_of request) = None
                \<longrightarrow> resp = empty_final \<and> engine_calls g' = engine_calls g)"
proof -
  let ?sid = "session_id_of request"
  let ?g = "setdefault_lock g ?sid"
  from setdefault_lock_free [OF l] have "session_locks ?g ?sid \<noteq> Some True" by simp
  from end_of_utterance_result [OF this, of V] obtain resp g'
    where r: "end_of_utterance V ?g ?sid = Some (resp, g')"
      and f: "model g' = model ?g" "recognizers g' = (recognizers ?g)(?sid := None)"
        "session_locks g' = (session_locks ?g)(?sid := None)"
        "session_closed g' = session_closed ?g - {?sid}"
        "recognizers ?g ?sid = None \<longrightarrow> resp = empty_final \<and> engine_calls g' = engine_calls ?g"
    by (elim exE conjE) (rule that)
  from m e r have "recognize_audio_stream V g request = Some (resp, g')"
    by (simp add: recognize_audio_stream_loaded)
  with f setdefault_lock_other [OF l] show ?thesis by simp
qed

text \<open>
  C4. With the model loaded and the session's lock free, two end-of-utterance requests
  for one session id, one after the other, both return; the second finds no recognizer
  for the id, calls nothing in the engine, answers 200 with the empty final result, and
  leaves no recognizer, no lock and no closed marker for the id.
\<close>

theorem close_twice:
  assumes "model g = Some m"
    and "end_of_utt_of r1" and "end_of_utt_of r2"
    and "session_id_of r2 = session_id_of r1"
    and "session_locks g (session_id_of r1) \<noteq> Some True"
  shows "\<exists>resp1 g1 g2.
           recognize_audio_stream V g r1 = Some (resp1, g1)
         \<and> recognizers g1 (session_id_of r1) = None
         \<and> recognize_audio_stream V g1 r2 = Some (empty_final, g2)
         \<and> new_calls g1 g2 = []
         \<and> recognizers g2 (session_id_of r1) = None
         \<and> session_locks g2 (session_id_of r1) = None
         \<and> session_id_of r1 \<notin> session_closed g2"
proof -
  let ?sid = "session_id_of r1"
  from close_request [OF assms(1,2,5), of V] obtain resp1 g1
    where r1: "recognize_audio_stream V g r1 = Some (resp1, g1)"
      and m1: "model g1 = model g"
      and c1: "recognizers g1 = (recognizers g)(?sid := None)"
      and l1: "session_locks g1 = (session_locks g)(?sid := None)"
    by (elim exE conjE) (rule that)
  from m1 assms(1) have m1': "model g1 = Some m" by simp
  from l1 assms(4) have f1: "session_locks g1 (session_id_of r2) \<noteq> Some True" by simp
  from c1 assms(4) have n1: "recognizers g1 (session_id_of r2) = None" by simp
  from close_request [OF m1' assms(3) f1, of V] obtain resp2 g2
    where r2': "recognize_audio_stream V g1 r2 = Some (resp2, g2)"
      and c2: "recognizers g2 = (recognizers g1)(session_id_of r2 := None)"
      and l2: "session_locks g2 = (session_locks g1)(session_id_of r2 := None)"
      and s2: "session_closed g2 = session_closed g1 - {session_id_of r2}"
      and i2: "recognizers g1 (session_id_of r2) = None
                \<longrightarrow> resp2 = empty_final \<and> engine_calls g2 = engine_calls g1"
    by (elim exE conjE) (rule that)
  from i2 n1 have resp2: "resp2 = empty_final" and e2: "engine_calls g2 = engine_calls g1"
    by simp_all
  from r2' resp2 have r2: "recognize_audio_stream V g1 r2 = Some (empty_final, g2)" by simp
  from e2 have "new_calls g1 g2 = []" by (simp add: new_calls_def)
  then have n: "new_calls g1 g2 = []" .
  from c1 have a1: "recognizers g1 ?sid = None" by simp
  from c2 assms(4) have a2: "recognizers g2 ?sid = None" by simp
  from l2 assms(4) have a3: "session_locks g2 ?sid = None" by simp
  from s2 assms(4) have a4: "?sid \<notin> session_closed g2" by simp
  from r1 a1 r2 n a2 a3 a4 show ?thesis by blast
qed

subsection \<open>Engine failures and closed sessions\<close>

lemma fragment_reaches_engine:
  assumes m: "model g = Some m" and e: "\<not> end_of_utt_of request"
    and x: "to_int16 (body request) = Inr (Some int16_data)"
    and n: "normalize_pcm int16_data = Ready pcm"
    and l: "session_locks g (session_id_of request) \<noteq> Some True"
  shows "recognize_audio_stream V g request =
           Some (fst (locked_section V m (locked g (session_id_of request))
                        (session_id_of request) pcm),
                 release (snd (locked_section V m (locked g (session_id_of request))
                                 (session_id_of request) pcm))
                   (session_id_of request))"
proof -
  let ?sid = "session_id_of request"
  let ?g = "setdefault_lock g ?sid"
  from to_int16_Some [OF x] have v: "body request \<noteq> []" "length (body request) mod 4 = 0"
    by auto
  have s: "setdefault_lock ?g ?sid = ?g"
    using setdefault_lock_free [OF l] by (simp add: setdefault_lock_def [of ?g])
  have a: "acquire ?g ?sid = Some (locked g ?sid)"
    using setdefault_lock_free [OF l]
    by (simp add: acquire_def locked_def setdefault_lock_def split: option.splits)
  from m e show ?thesis
    by (simp add: recognize_audio_stream_loaded audio_fragment_def v x n s a)
qed


lemma accept_fragment_raises:
  assumes "fst (AcceptWaveform V h pcm) = Inl e"
  shows "accept_fragment V g sid h pcm =
           ((500, ErrorBody (VoskFailed e)),
            g\<lparr>recognizers := (recognizers g)(sid \<mapsto> snd (AcceptWaveform V h pcm)),
              engine_calls := engine_calls g @ [Accept sid pcm]\<rparr>)"
  using assms by (simp add: accept_fragment_def Let_def)

text \<open>
  C8. With the model loaded, a fragment that reaches the engine (it converts and
  normalises to a buffer, its session is not marked closed and its lock is free) and on
  which \<^verbatim>\<open>AcceptWaveform\<close> raises is answered 500 with the text of the exception; after
  the request the session's lock is in the map and free, and the session's recognizer,
  in the state the failed call left it, is still in the recognizer map. The recognizer
  is the one the session had, or the one created by this request.
\<close>

theorem accept_failure_keeps_session:
  assumes "model g = Some m" and "\<not> end_of_utt_of request"
    and "to_int16 (body request) = Inr (Some int16_data)"
    and "normalize_pcm int16_data = Ready pcm"
    and "session_locks g (session_id_of request) \<noteq> Some True"
    and "session_id_of request \<notin> session_closed g"
    and "recognizers g (session_id_of request) = Some h
         \<or> (recognizers g (session_id_of request) = None \<and> KaldiRecognizer V m 16000 = Inr h)"
    and "fst (AcceptWaveform V h pcm) = Inl e"
  shows "\<exists>g'. recognize_audio_stream V g request = Some ((500, ErrorBody (VoskFailed e)), g')
           \<and> session_locks g' (session_id_of request) = Some False
           \<and> recognizers g' (session_id_of request) = Some (snd (AcceptWaveform V h pcm))
           \<and> session_closed g' = session_closed g"
proof -
  let ?sid = "session_id_of request"
  let ?l = "locked g ?sid"
  note run = fragment_reaches_engine [OF assms(1-5), of V]
  from assms(6) have c: "?sid \<notin> session_closed ?l" by (simp add: locked_def)
  from assms(7) show ?thesis
  proof
    assume "recognizers g ?sid = Some h"
    then have "recognizers ?l ?sid = Some h" by (simp add: locked_def)
    with c have "locked_section V m ?l ?sid pcm = accept_fragment V ?l ?sid h pcm"
      by (simp add: locked_section_def)
    with run show ?thesis
      by (simp add: accept_fragment_raises [OF assms(8)] release_def locked_def)
  next
    assume "recognizers g ?sid = None \<and> KaldiRecognizer V m 16000 = Inr h"
    then have "recognizers ?l ?sid = None" and k: "KaldiRecognizer V m 16000 = Inr h"
      by (simp_all add: locked_def)
    with c have "locked_section V m ?l ?sid pcm =
        accept_fragment V
          (?l\<lparr>engine_calls := engine_calls ?l @ [Create]\<rparr>
             \<lparr>recognizers := (recognizers (?l\<lparr>engine_calls := engine_calls ?l @ [Create]\<rparr>))
                (?sid \<mapsto> h)\<rparr>) ?sid h pcm"
      by (simp add: locked_section_def Let_def)
    with run show ?thesis
      by (simp add: accept_fragment_raises [OF assms(8)] release_def locked_def)
  qed
qed

theorem accept_failure_keeps_session_witness:
  "\<exists>g'. recognize_audio_stream failing_vosk g_init (fragment ''s'' silence) =
          Some ((500, ErrorBody (VoskFailed ''boom'')), g')
       \<and> session_locks g' ''s'' = Some False
       \<and> recognizers g' ''s'' = Some 0
       \<and> session_closed g' = session_closed g_init"
proof -
  have m: "model g_init = Some ()" by (simp add: g_init_def)
  have b: "to_int16 (body (fragment ''s'' silence)) = Inr (Some (replicate 320 0))"
    by (simp add: fragment_def to_int16_silence)
  have l: "session_locks g_init (session_id_of (fragment ''s'' silence)) \<noteq> Some True"
    by (simp add: g_init_def)
  have c: "session_id_of (fragment ''s'' silence) \<notin> session_closed g_init"
    by (simp add: g_init_def)
  have r: "recognizers g_init (session_id_of (fragment ''s'' silence)) = Some 0
       \<or> (recognizers g_init (session_id_of (fragment ''s'' silence)) = None
          \<and> KaldiRecognizer failing_vosk () 16000 = Inr 0)"
    by (simp add: g_init_def failing_vosk_def demo_vosk_def)
  have a: "fst (AcceptWaveform failing_vosk 0 (replicate 640 0)) = Inl ''boom''"
    by (simp add: failing_vosk_def)
  have s: "snd (AcceptWaveform failing_vosk 0 (replicate 640 0)) = 0"
    by (simp add: failing_vosk_def)
  from accept_failure_keeps_session [OF m eou_fragment b normalize_pcm_silence l c r a]
  show ?thesis by (simp add: sid_fragment s)
qed

text \<open>An end-of-utterance request for a session without a recognizer gives the empty
  final result and leaves the globals as they were; a fragment sent afterwards is then
  handled like the first fragment of a new session (\<open>silence_run\<close>).\<close>

lemma close_fresh_session:
  "recognize_audio_stream demo_vosk g_init (end_request ''s'') = Some (empty_final, g_init)"
proof -
  have m: "model g_init = Some ()" by (simp add: g_init_def)
  have a: "acquire (g_init\<lparr>session_locks := [''s'' \<mapsto> False]\<rparr>) ''s''
      = Some (g_init\<lparr>session_locks := [''s'' \<mapsto> True]\<rparr>)"
    by (simp add: acquire_def)
  have e: "end_of_utterance demo_vosk (g_init\<lparr>session_locks := [''s'' \<mapsto> False]\<rparr>) ''s''
      = Some (empty_final, g_init)"
    unfolding end_of_utterance_def a option.case Let_def
    by (simp add: g_init_def release_def)
  show ?thesis
    by (simp add: recognize_audio_stream_loaded [OF m] eou_end_request sid_end_request
          setdefault_lock_fresh e)
qed

theorem close_twice_witness:
  "\<exists>resp1 g1 g2.
     recognize_audio_stream demo_vosk
       (g_init\<lparr>recognizers := [''s'' \<mapsto> 640], session_locks := [''s'' \<mapsto> False]\<rparr>)
       (end_request ''s'') = Some (resp1, g1)
   \<and> recognizers g1 ''s'' = None
   \<and> recognize_audio_stream demo_vosk g1 (end_request ''s'') = Some (empty_final, g2)
   \<and> new_calls g1 g2 = []
   \<and> recognizers g2 ''s'' = None
   \<and> session_locks g2 ''s'' = None
   \<and> ''s'' \<notin> session_closed g2"
proof -
  let ?g = "g_init\<lparr>recognizers := [''s'' \<mapsto> 640], session_locks := [''s'' \<mapsto> False]\<rparr>"
  have m: "model ?g = Some ()" by (simp add: g_init_def)
  have l: "session_locks ?g (session_id_of (end_request ''s'')) \<noteq> Some True"
    by (simp add: sid_end_request)
  from close_twice [OF m eou_end_request eou_end_request refl l, of demo_vosk]
  show ?thesis by (simp add: sid_end_request)
qed

subsection \<open>The declick loop\<close>

lemma declick_loop_readonly:
  assumes "\<not> writeable a"
  shows "declick_loop i a =
           (if \<exists>j. i \<le> j \<and> j < length (data a) \<and> jump_at (data a) j
            then Inl ''assignment destination is read-only'' else Inr a)"
  using assms
proof (induction i a rule: declick_loop.induct)
  case (1 i a)
  show ?case
  proof (cases "i < length (data a)")
    case False
    then show ?thesis by (simp add: declick_loop.simps [of i a])
  next
    case True
    show ?thesis
    proof (cases "jump_at (data a) i")
      case j: True
      with True have "\<exists>j. i \<le> j \<and> j < length (data a) \<and> jump_at (data a) j" by blast
      moreover from True j "1.prems"
      have "declick_loop i a = Inl ''assignment destination is read-only''"
        by (simp add: declick_loop.simps [of i a] setitem_def jump_at_def)
      ultimately show ?thesis by simp
    next
      case nj: False
      with True have d: "declick_loop i a = declick_loop (Suc i) a"
        by (simp add: declick_loop.simps [of i a] jump_at_def)
      from nj have "(\<exists>j. i \<le> j \<and> j < length (data a) \<and> jump_at (data a) j)
          = (\<exists>j. Suc i \<le> j \<and> j < length (data a) \<and> jump_at (data a) j)"
        by (metis Suc_leI le_neq_implies_less Suc_leD)
      with d "1.IH"(2) [OF True _ "1.prems"] nj show ?thesis
        by (simp add: jump_at_def)
    qed
  qed
qed

lemma declick_loop_writeable:
  assumes "writeable a" and "0 < i" and "i \<le> length (data a)"
  shows "declick_loop i a =
           Inr (a\<lparr>data := take i (data a) @ declick_pass (data a ! (i - 1)) (drop i (data a))\<rparr>)"
  using assms
proof (induction i a rule: declick_loop.induct)
  case (1 i a)
  show ?case
  proof (cases "i < length (data a)")
    case False
    from False have "declick_loop i a = Inr a" by (simp add: declick_loop.simps [of i a])
    moreover from False "1.prems" have "i = length (data a)" by simp
    ultimately show ?thesis by simp
  next
    case True
    let ?x = "data a ! i" and ?p = "data a ! (i - 1)"
    have dr: "drop i (data a) = ?x # drop (Suc i) (data a)"
      using True by (simp add: Cons_nth_drop_Suc)
    show ?thesis
    proof (cases "\<bar>sint ?x - sint ?p\<bar> > 20000")
      case j: True
      let ?a' = "a\<lparr>data := (data a)[i := ?p]\<rparr>"
      from "1.prems" have s: "setitem a i ?p = Inr ?a'" by (simp add: setitem_def)
      from "1.prems" True have p': "writeable ?a'" "0 < Suc i" "Suc i \<le> length (data ?a')"
        by simp_all
      from "1.IH"(1) [OF True j s p']
      have "declick_loop (Suc i) ?a' =
          Inr (?a'\<lparr>data := take (Suc i) (data ?a') @ declick_pass (data ?a' ! i) (drop (Suc i) (data ?a'))\<rparr>)"
        by simp
      moreover have "take (Suc i) (data ?a') = take i (data a) @ [?p]"
        using True by (simp add: take_Suc_conv_app_nth)
      moreover have "data ?a' ! i = ?p" using True by simp
      moreover have "drop (Suc i) (data ?a') = drop (Suc i) (data a)" by simp
      ultimately have "declick_loop (Suc i) ?a' =
          Inr (a\<lparr>data := take i (data a) @ ?p # declick_pass ?p (drop (Suc i) (data a))\<rparr>)"
        by simp
      with True j s show ?thesis
        by (simp add: declick_loop.simps [of i a] dr)
    next
      case nj: False
      from "1.prems" True have p': "writeable a" "0 < Suc i" "Suc i \<le> length (data a)"
        by simp_all
      from "1.IH"(2) [OF True nj p']
      have "declick_loop (Suc i) a =
          Inr (a\<lparr>data := take (Suc i) (data a) @ declick_pass ?x (drop (Suc i) (data a))\<rparr>)"
        by simp
      moreover have "take (Suc i) (data a) = take i (data a) @ [?x]"
        using True by (simp add: take_Suc_conv_app_nth)
      ultimately have "declick_loop (Suc i) a =
          Inr (a\<lparr>data := take i (data a) @ ?x # declick_pass ?x (drop (Suc i) (data a))\<rparr>)"
        by simp
      with True nj show ?thesis
        by (simp add: declick_loop.simps [of i a] dr)
    qed
  qed
qed

lemma declick_loop_spec:
  "declick_loop 1 \<lparr>data = xs, writeable = True\<rparr> = Inr \<lparr>data = declick_spec xs, writeable = True\<rparr>"
proof (cases xs)
  case Nil
  then show ?thesis by (simp add: declick_loop.simps declick_spec_def)
next
  case (Cons x rest)
  with declick_loop_writeable [of "\<lparr>data = xs, writeable = True\<rparr>" 1]
  show ?thesis by (simp add: declick_spec_def)
qed

subsection \<open>What the normaliser returns\<close>

lemma of_le16_to_le16: "of_le16 (ucast w) (ucast (drop_bit 8 w)) = w"
  unfolding of_le16_def
  by (rule bit_word_eqI) (auto simp: bit_simps)

lemma le16_items_tobytes: "le16_items (tobytes xs) = xs"
  by (induction xs) (simp_all add: tobytes_def to_le16_def of_le16_to_le16)

lemma take_tobytes: "take (2 * k) (tobytes xs) = tobytes (take k xs)"
proof (induction xs arbitrary: k)
  case Nil
  show ?case by (simp add: tobytes_def)
next
  case (Cons x xs)
  show ?case
  proof (cases k)
    case 0
    then show ?thesis by (simp add: tobytes_def)
  next
    case (Suc n)
    with Cons [of n] show ?thesis by (simp add: tobytes_def to_le16_def)
  qed
qed

lemma truncate_pcm_tobytes: "truncate_pcm (tobytes xs) = tobytes (take 16000 xs)"
proof -
  have "take (2 * 16000) (tobytes xs) = tobytes (take 16000 xs)" by (rule take_tobytes)
  then show ?thesis
    by (auto simp: truncate_pcm_def max_bytes_def length_tobytes Let_def)
qed

lemma length_abs_diff: "length (abs_diff xs) = length xs - 1"
  by (induction xs rule: abs_diff.induct) simp_all

lemma abs_diff_nth:
  "Suc j < length xs \<Longrightarrow> abs_diff xs ! j = \<bar>sint (xs ! Suc j) - sint (xs ! j)\<bar>"
proof (induction xs arbitrary: j rule: abs_diff.induct)
  case (1 a b xs)
  then show ?case by (cases j) simp_all
qed simp_all

lemma np_max_gt: "ys \<noteq> [] \<Longrightarrow> (c < np_max ys) = (\<exists>j < length ys. c < ys ! j)"
proof (cases ys)
  case Nil
  assume "ys \<noteq> []" with Nil show ?thesis by simp
next
  case (Cons y rest)
  have "np_max ys = Max (set ys)" unfolding Cons using Max.set_eq_fold [of y rest] by simp
  moreover have "(c < Max (set ys)) = (\<exists>v \<in> set ys. c < v)"
    using Cons by (subst Max_gr_iff) simp_all
  moreover have "(\<exists>v \<in> set ys. c < v) = (\<exists>j < length ys. c < ys ! j)"
    by (metis in_set_conv_nth)
  ultimately show ?thesis by simp
qed

lemma np_max_abs_diff:
  assumes "1 < length xs"
  shows "(20000 < np_max (abs_diff xs)) = (\<exists>j. 1 \<le> j \<and> j < length xs \<and> jump_at xs j)"
proof -
  from assms have ne: "abs_diff xs \<noteq> []" using length_abs_diff [of xs] by auto
  have "(\<exists>j < length (abs_diff xs). 20000 < abs_diff xs ! j)
      = (\<exists>j. 1 \<le> j \<and> j < length xs \<and> jump_at xs j)"
  proof
    assume "\<exists>j < length (abs_diff xs). 20000 < abs_diff xs ! j"
    then obtain j where j: "j < length xs - 1" "20000 < abs_diff xs ! j"
      by (auto simp: length_abs_diff)
    then have "Suc j < length xs" by simp
    with j abs_diff_nth [of j xs] have "jump_at xs (Suc j)" by (simp add: jump_at_def)
    with \<open>Suc j < length xs\<close> show "\<exists>j. 1 \<le> j \<and> j < length xs \<and> jump_at xs j"
      by (intro exI [of _ "Suc j"]) simp
  next
    assume "\<exists>j. 1 \<le> j \<and> j < length xs \<and> jump_at xs j"
    then obtain j where j: "1 \<le> j" "j < length xs" "jump_at xs j" by blast
    then obtain k where k: "j = Suc k" by (cases j) auto
    with j abs_diff_nth [of k xs] have "20000 < abs_diff xs ! k" by (simp add: jump_at_def)
    moreover from j k have "k < length (abs_diff xs)" by (simp add: length_abs_diff)
    ultimately show "\<exists>j < length (abs_diff xs). 20000 < abs_diff xs ! j" by blast
  qed
  with np_max_gt [OF ne, of 20000] show ?thesis by simp
qed

lemma declick_tobytes:
  "declick (tobytes xs) =
     (if \<exists>j. 1 \<le> j \<and> j < length xs \<and> jump_at xs j
      then Inl ''assignment destination is read-only''
      else Inr (tobytes xs, \<lparr>data = xs, writeable = False\<rparr>))"
proof -
  have f: "frombuffer_i16 (tobytes xs) = Inr \<lparr>data = xs, writeable = False\<rparr>"
    by (simp add: frombuffer_i16_def length_tobytes le16_items_tobytes)
  show ?thesis
  proof (cases "1 < length xs")
    case False
    then have "\<not> (\<exists>j. 1 \<le> j \<and> j < length xs \<and> jump_at xs j)" by auto
    with False show ?thesis by (simp add: declick_def f)
  next
    case True
    have r: "declick_loop 1 \<lparr>data = xs, writeable = False\<rparr> =
           (if \<exists>j. 1 \<le> j \<and> j < length xs \<and> jump_at xs j
            then Inl ''assignment destination is read-only''
            else Inr \<lparr>data = xs, writeable = False\<rparr>)"
      using declick_loop_readonly [of "\<lparr>data = xs, writeable = False\<rparr>" 1] by simp
    show ?thesis
    proof (cases "\<exists>j. 1 \<le> j \<and> j < length xs \<and> jump_at xs j")
      case j: True
      with np_max_abs_diff [OF True] have "20000 < np_max (abs_diff xs)" by simp
      with True j r show ?thesis by (simp add: declick_def f Let_def)
    next
      case nj: False
      with np_max_abs_diff [OF True] have "\<not> 20000 < np_max (abs_diff xs)" by simp
      with True nj show ?thesis by (simp add: declick_def f Let_def)
    qed
  qed
qed

lemma normalize_pcm_cases:
  "normalize_pcm xs =
     (if length xs < 320 then TooShort
      else if \<exists>j. 1 \<le> j \<and> j < length (take 16000 xs) \<and> jump_at (take 16000 xs) j
      then Raised ''assignment destination is read-only''
      else Ready (tobytes (take 16000 xs)))"
proof (cases "length xs < 320")
  case True
  then show ?thesis by (simp add: normalize_pcm_def length_tobytes)
next
  case False
  then have p: "\<not> pad_needed \<lparr>data = take 16000 xs, writeable = False\<rparr>"
    by (simp add: pad_needed_def min_samples_def)
  show ?thesis
  proof (cases "\<exists>j. 1 \<le> j \<and> j < length (take 16000 xs) \<and> jump_at (take 16000 xs) j")
    case True
    then have "declick (tobytes (take 16000 xs)) = Inl ''assignment destination is read-only''"
      by (simp only: declick_tobytes if_True)
    with False True show ?thesis
      by (simp add: normalize_pcm_def length_tobytes truncate_pcm_tobytes del: length_take)
  next
    case nj: False
    then have "declick (tobytes (take 16000 xs))
        = Inr (tobytes (take 16000 xs), \<lparr>data = take 16000 xs, writeable = False\<rparr>)"
      by (simp only: declick_tobytes if_False)
    with False nj show ?thesis
      by (simp add: normalize_pcm_def length_tobytes truncate_pcm_tobytes pad_min_def p
            del: length_take)
  qed
qed

subsection \<open>The declick step on a fragment with a jump\<close>

lemma decode_one: "decode_f32 (of_le32 0 0 128 63) = Fin False 8388608 (- 23)"
  by (simp add: decode_f32_def of_le32_def)

lemma bitlen_nat_eq:
  "2 ^ k \<le> n \<Longrightarrow> n < 2 ^ Suc k \<Longrightarrow> bitlen_nat n = Suc k"
proof (induction k arbitrary: n)
  case 0
  then have "n = 1" by simp
  then show ?case by (simp add: bitlen_nat.simps [of "Suc 0"] bitlen_nat.simps [of 0])
next
  case (Suc k)
  from Suc.prems have "2 ^ k \<le> n div 2" "n div 2 < 2 ^ Suc k" by simp_all
  from Suc.IH [OF this] have "bitlen_nat (n div 2) = Suc k" .
  moreover from Suc.prems have "n \<noteq> 0" by auto
  ultimately show ?case by (simp add: bitlen_nat.simps [of n])
qed

lemma quantize_one: "astype_int16 (mul_32767 (clip (Fin False 8388608 (- 23)))) = 32767"
proof -
  have c: "clip (Fin False 8388608 (- 23)) = Fin False 8388608 (- 23)"
    by (simp add: clip_def above_one_def)
  have b: "bitlen_nat 274869518336 = Suc 37"
    by (rule bitlen_nat_eq) simp_all
  have m: "mul_32767 (Fin False 8388608 (- 23)) = Fin False 16776704 (- 9)"
    by (simp add: mul_32767_def b round_shift_def)
  show ?thesis by (simp add: c m astype_int16_def trunc_mag_def)
qed


lemma to_int16_click: "to_int16 click = Inr (Some (32767 # replicate 319 0))"
proof -
  have "click = 0 # 0 # 128 # 63 # replicate (4 * 319) 0" by (simp add: click_def)
  then have "f32_items click = f32_items (0 # 0 # 128 # 63 # replicate (4 * 319) 0)"
    by (rule arg_cong)
  also have "\<dots> = decode_f32 (of_le32 0 0 128 63) # f32_items (replicate (4 * 319) 0)"
    by (rule f32_items.simps(1))
  finally have f: "f32_items click
      = Fin False 8388608 (- 23) # replicate 319 (Fin False 0 (- 149))"
    by (simp only: decode_one f32_items_zeros)
  have l: "length click = 1280" by (simp add: click_def)
  show ?thesis
    by (simp add: to_int16_def scale_float_data_def frombuffer_f32_def l f isnan_def isinf_def list_ex_iff
          quantize_one quantize_zero)
qed

lemma normalize_pcm_click:
  "normalize_pcm (32767 # replicate 319 0) = Raised ''assignment destination is read-only''"
proof -
  let ?xs = "32767 # replicate 319 (0 :: int16)"
  have t: "take 16000 ?xs = ?xs" by simp
  have "jump_at ?xs 1" by (simp add: jump_at_def)
  then have "\<exists>j. 1 \<le> j \<and> j < length (take 16000 ?xs) \<and> jump_at (take 16000 ?xs) j"
    unfolding t by (intro exI [of _ 1]) simp
  then show ?thesis by (simp add: normalize_pcm_cases del: take_Suc_Cons length_take)
qed

text \<open>
  C7, at an input where the code departs from it. The fragment is the float32 sample 1.0
  followed by 319 zeros; it quantises to 32767 followed by zeros, so the second sample
  differs from the first by more than 20000. The specification's pass would set it to
  32767. The handler instead answers 500: the array of line 242 is a read-only view of a
  \<^verbatim>\<open>bytes\<close> object, the assignment of line 250 raises, and the engine is never called.
\<close>

theorem declick_write_fails:
  "recognize_audio_stream demo_vosk g_init (fragment ''s'' click) =
     Some ((500, ErrorBody (VoskFailed ''assignment destination is read-only'')),
           g_init\<lparr>session_locks := [''s'' \<mapsto> False]\<rparr>)
   \<and> to_int16 click = Inr (Some (32767 # replicate 319 0))
   \<and> declick_spec (32767 # replicate 319 0) = 32767 # replicate 319 32767"
proof -
  have m: "model g_init = Some ()" by (simp add: g_init_def)
  have b: "body (fragment ''s'' click) = click" by (simp add: fragment_def)
  have l: "length click = 1280" by (simp add: click_def)
  have r: "recognize_audio_stream demo_vosk g_init (fragment ''s'' click) =
     Some ((500, ErrorBody (VoskFailed ''assignment destination is read-only'')),
           g_init\<lparr>session_locks := [''s'' \<mapsto> False]\<rparr>)"
    by (simp add: recognize_audio_stream_loaded [OF m] eou_fragment sid_fragment b l
          audio_fragment_def to_int16_click normalize_pcm_click setdefault_lock_fresh)
  have p: "declick_pass 32767 (replicate n 0) = replicate n 32767" for n
    by (induction n) simp_all
  have d: "declick_spec (32767 # replicate 319 0) = 32767 # replicate 319 32767"
    using p [of 319] by (simp add: declick_spec_def)
  from r to_int16_click d show ?thesis by simp
qed

text \<open>A buffer without a jump passes the declick step unchanged.\<close>

lemma declick_smooth_unchanged:
  assumes "\<not> (\<exists>j. 1 \<le> j \<and> j < length xs \<and> jump_at xs j)"
  shows "declick (tobytes xs) = Inr (tobytes xs, \<lparr>data = xs, writeable = False\<rparr>)"
    and "declick_spec xs = xs"
proof -
  from assms show "declick (tobytes xs) = Inr (tobytes xs, \<lparr>data = xs, writeable = False\<rparr>)"
    by (simp only: declick_tobytes if_False)
  have "\<forall>j. j < length ys \<longrightarrow> \<not> jump_at (p # ys) (Suc j) \<Longrightarrow> declick_pass p ys = ys" for p ys
  proof (induction ys arbitrary: p)
    case Nil
    show ?case by simp
  next
    case (Cons y ys)
    from Cons.prems have "\<not> jump_at (p # y # ys) (Suc 0)" by auto
    then have n: "\<not> \<bar>sint y - sint p\<bar> > 20000" by (simp add: jump_at_def)
    have "\<forall>j. j < length ys \<longrightarrow> \<not> jump_at (y # ys) (Suc j)"
    proof (intro allI impI)
      fix j assume "j < length ys"
      with Cons.prems have "\<not> jump_at (p # y # ys) (Suc (Suc j))" by auto
      then show "\<not> jump_at (y # ys) (Suc j)" by (simp add: jump_at_def)
    qed
    from Cons.IH [OF this] n show ?case by simp
  qed
  note pass = this
  show "declick_spec xs = xs"
  proof (cases xs)
    case Nil
    then show ?thesis by (simp add: declick_spec_def)
  next
    case (Cons x rest)
    have "\<forall>j. j < length rest \<longrightarrow> \<not> jump_at (x # rest) (Suc j)"
      using assms Cons by auto
    from pass [OF this] Cons show ?thesis by (simp add: declick_spec_def)
  qed
qed

text \<open>After an end-of-utterance request has returned, the closed marker of its session
  is not set: the \<^verbatim>\<open>finally\<close> block of lines 171-174 discards it.\<close>

lemma close_clears_marker:
  assumes "model g = Some m" and "end_of_utt_of request"
    and "recognize_audio_stream V g request = Some (resp, g')"
  shows "session_id_of request \<notin> session_closed g'"
proof -
  let ?sid = "session_id_of request"
  from assms have e: "end_of_utterance V (setdefault_lock g ?sid) ?sid = Some (resp, g')"
    by (simp add: recognize_audio_stream_loaded)
  then obtain g1 where a: "acquire (setdefault_lock g ?sid) ?sid = Some g1"
    by (auto simp: end_of_utterance_def split: option.splits)
  from e show ?thesis
    unfolding end_of_utterance_def a option.case Let_def
    by (auto simp: release_def split: option.splits)
qed

subsection \<open>Quantisation of the float32 samples\<close>

lemma bitlen_nat_le: "n < 2 ^ k \<Longrightarrow> bitlen_nat n \<le> k"
proof (induction k arbitrary: n)
  case 0
  then show ?case by (simp add: bitlen_nat.simps [of 0])
next
  case (Suc k)
  show ?case
  proof (cases "n = 0")
    case True
    then show ?thesis by (simp add: bitlen_nat.simps [of 0])
  next
    case False
    from Suc.prems have "n div 2 < 2 ^ k" by simp
    from Suc.IH [OF this] False show ?thesis by (simp add: bitlen_nat.simps [of n])
  qed
qed

lemma round_shift_le:
  assumes "n \<le> K * 2 ^ s"
  shows "round_shift n s \<le> K"
proof (cases "n div 2 ^ s < K")
  case True
  then show ?thesis by (simp add: round_shift_def Let_def)
next
  case False
  have "n div 2 ^ s \<le> K" using assms by (simp add: div_le_mono [of n "K * 2 ^ s" "2 ^ s", simplified])
  with False have q: "n div 2 ^ s = K" by simp
  have "n div 2 ^ s * 2 ^ s + n mod 2 ^ s = n" by (rule div_mult_mod_eq)
  with q assms have "n mod 2 ^ s = 0" by simp
  with q show ?thesis by (simp add: round_shift_def Let_def)
qed

lemma round_shift_zero: "round_shift n 0 = n"
  by (simp add: round_shift_def)


lemma bitlen_nat_32767: "bitlen_nat 32767 = 15"
  using bitlen_nat_eq [of 14 32767] by simp

lemma scaled_in_range:
  assumes "\<not> above_one m e"
  shows "astype_defined (mul_32767 (Fin s m e))"
proof (cases "0 \<le> e")
  case True
  with assms have "m * 2 ^ nat e \<le> 1" by (simp add: above_one_def)
  then have "m = 0 \<or> (m = 1 \<and> nat e = 0)"
    by (cases "m = 0") (auto simp: mult_eq_1_iff le_Suc_eq)
  then show ?thesis
  proof
    assume "m = 0"
    then show ?thesis
      by (simp add: mul_32767_def bitlen_nat.simps [of 0] round_shift_zero astype_defined_def
            trunc_mag_def)
  next
    assume "m = 1 \<and> nat e = 0"
    with True have "m = 1" "e = 0" by simp_all
    then show ?thesis
      by (simp add: mul_32767_def bitlen_nat_32767 round_shift_zero astype_defined_def
            trunc_mag_def)
  qed
next
  case False
  define E where "E = nat (- e)"
  define n where "n = m * 32767"
  define sh where "sh = bitlen_nat n - 24"
  from False have E: "0 < E" "e = - int E" by (simp_all add: E_def)
  from assms False have m: "m \<le> 2 ^ E" by (simp add: above_one_def E_def)
  then have n: "n \<le> 32767 * 2 ^ E" by (simp add: n_def)
  also have "\<dots> < 2 ^ 15 * 2 ^ E" by simp
  finally have "n < 2 ^ (15 + E)" by (simp add: power_add)
  then have "bitlen_nat n \<le> 15 + E" by (rule bitlen_nat_le)
  with E have sh: "sh < E" by (simp add: sh_def)
  then have e': "e + int sh < 0" "nat (- (e + int sh)) = E - sh" using E by simp_all
  have "2 ^ E = (2::nat) ^ (E - sh) * 2 ^ sh"
    using sh by (simp add: power_add [symmetric])
  with n have "n \<le> (32767 * 2 ^ (E - sh)) * 2 ^ sh" by simp
  then have r: "round_shift n sh \<le> 32767 * 2 ^ (E - sh)" by (rule round_shift_le)
  have "round_shift n sh div 2 ^ (E - sh) \<le> (32767 * 2 ^ (E - sh)) div 2 ^ (E - sh)"
    using r by (rule div_le_mono)
  then have t: "round_shift n sh div 2 ^ (E - sh) \<le> 32767" by simp
  have "mul_32767 (Fin s m e) = Fin s (round_shift n sh) (e + int sh)"
    using e'(1) by (simp add: mul_32767_def Let_def n_def sh_def)
  with t e' show ?thesis by (simp add: astype_defined_def trunc_mag_def)
qed

lemma quantize_sample_defined:
  "astype_defined (mul_32767 (clamp_unit (sanitize_non_finite x)))"
proof (cases x)
  case NaN
  have "\<not> above_one 0 0" by (simp add: above_one_def)
  with scaled_in_range [of 0 0 False] NaN show ?thesis
    by (simp add: sanitize_non_finite_def clamp_unit_def)
next
  case (Inf s)
  have "\<not> above_one 1 0" by (simp add: above_one_def)
  with scaled_in_range [of 1 0] Inf show ?thesis
    by (cases s) (simp_all add: sanitize_non_finite_def clamp_unit_def)
next
  case (Fin s m e)
  have o: "\<not> above_one 1 0" by (simp add: above_one_def)
  show ?thesis
  proof (cases "above_one m e")
    case True
    with Fin scaled_in_range [OF o] show ?thesis
      by (simp add: sanitize_non_finite_def clamp_unit_def)
  next
    case False
    with Fin scaled_in_range [OF False] show ?thesis
      by (simp add: sanitize_non_finite_def clamp_unit_def)
  qed
qed

lemma clip_nan_to_num: "clip (nan_to_num x) = clamp_unit (sanitize_non_finite x)"
  by (cases x) (auto simp: clip_def nan_to_num_def clamp_unit_def sanitize_non_finite_def
      one_f32_def above_one_def)

lemma clip_finite:
  "\<not> isnan x \<Longrightarrow> \<not> isinf x \<Longrightarrow> clip x = clamp_unit (sanitize_non_finite x)"
  by (cases x) (auto simp: clip_def clamp_unit_def sanitize_non_finite_def one_f32_def
      isnan_def isinf_def)

lemma quantize_sample_NaN: "quantize_sample NaN = 0"
  by (simp add: quantize_sample_def sanitize_non_finite_def clamp_unit_def above_one_def
        mul_32767_def bitlen_nat.simps [of 0] round_shift_zero astype_int16_def trunc_mag_def)

lemma quantize_sample_Inf: "quantize_sample (Inf s) = (if s then - 32767 else 32767)"
  by (simp add: quantize_sample_def sanitize_non_finite_def clamp_unit_def above_one_def
        mul_32767_def bitlen_nat_32767 round_shift_zero astype_int16_def trunc_mag_def)

lemma decode_nan: "decode_f32 (of_le32 0 0 192 127) = NaN"
  by (simp add: decode_f32_def of_le32_def)

lemma decode_neg_inf: "decode_f32 (of_le32 0 0 128 255) = Inf True"
  by (simp add: decode_f32_def of_le32_def)

lemma quantize_sample_one: "quantize_sample (Fin False 8388608 (- 23)) = 32767"
proof -
  have "clip (nan_to_num (Fin False 8388608 (- 23))) = Fin False 8388608 (- 23)"
    by (simp add: clip_def nan_to_num_def above_one_def)
  then have "clamp_unit (sanitize_non_finite (Fin False 8388608 (- 23))) = Fin False 8388608 (- 23)"
    by (simp only: clip_nan_to_num)
  with quantize_one show ?thesis
    by (simp add: quantize_sample_def clip_def above_one_def)
qed

subsection \<open>The quantised samples, as numbers\<close>

lemma round_shift_error:
  "2 * (round_shift n s * 2 ^ s) \<le> 2 * n + 2 ^ s
   \<and> 2 * n \<le> 2 * (round_shift n s * 2 ^ s) + 2 ^ s"
proof -
  define P :: nat where "P = 2 ^ s"
  define q where "q = n div P"
  define r where "r = n mod P"
  have n: "n = q * P + r" by (simp add: q_def r_def)
  have r: "r < P" by (simp add: r_def P_def)
  have "round_shift n s = (if 2 * r < P then q else if P < 2 * r then q + 1
                           else if even q then q else q + 1)"
    by (simp add: round_shift_def Let_def q_def r_def P_def)
  then have "round_shift n s * P = q * P \<and> 2 * r \<le> P
           \<or> round_shift n s * P = q * P + P \<and> P \<le> 2 * r"
    by (auto simp: algebra_simps split: if_splits)
  with n r show ?thesis unfolding P_def [symmetric] by auto
qed

lemma sint_of_nat16: "k \<le> 32767 \<Longrightarrow> sint (word_of_nat k :: int16) = int k"
proof -
  assume k: "k \<le> 32767"
  have "word_of_nat k = (word_of_int (int k) :: int16)" by simp
  then have "sint (word_of_nat k :: int16) = signed_take_bit 15 (int k)"
    by (simp only: sint_sbintrunc') simp
  also from k have "\<dots> = int k" by (intro signed_take_bit_int_eq_self) simp_all
  finally show ?thesis .
qed

lemma sint_neg_of_nat16: "k \<le> 32768 \<Longrightarrow> sint (- word_of_nat k :: int16) = - int k"
proof -
  assume k: "k \<le> 32768"
  have "- word_of_nat k = (word_of_int (- int k) :: int16)" by simp
  then have "sint (- word_of_nat k :: int16) = signed_take_bit 15 (- int k)"
    by (simp only: sint_sbintrunc') simp
  also from k have "\<dots> = - int k" by (intro signed_take_bit_int_eq_self) simp_all
  finally show ?thesis .
qed


lemma scaled_near_product:
  assumes "\<not> above_one m e"
  shows "\<exists>n' e'. mul_32767 (Fin s m e) = Fin s n' e'
           \<and> trunc_mag n' e' \<le> 32767
           \<and> near_product m e (trunc_mag n' e')"
proof (cases "0 \<le> e")
  case True
  with assms have "m * 2 ^ nat e \<le> 1" by (simp add: above_one_def)
  then have "m = 0 \<or> (m = 1 \<and> nat e = 0)"
    by (cases "m = 0") (auto simp: mult_eq_1_iff le_Suc_eq)
  then show ?thesis
  proof
    assume "m = 0"
    with True show ?thesis
      by (simp add: mul_32767_def bitlen_nat.simps [of 0] round_shift_zero trunc_mag_def
            near_product_def)
  next
    assume "m = 1 \<and> nat e = 0"
    with True have "m = 1" "e = 0" by simp_all
    then show ?thesis
      by (simp add: mul_32767_def bitlen_nat_32767 round_shift_zero trunc_mag_def
            near_product_def)
  qed
next
  case False
  define E where "E = nat (- e)"
  define n where "n = m * 32767"
  define sh where "sh = bitlen_nat n - 24"
  define n' where "n' = round_shift n sh"
  define D where "D = E - sh"
  define k where "k = n' div 2 ^ D"
  from False have E: "0 < E" "e = - int E" by (simp_all add: E_def)
  from assms False have m: "m \<le> 2 ^ E" by (simp add: above_one_def E_def)
  then have n: "n \<le> 32767 * 2 ^ E" by (simp add: n_def)
  also have "\<dots> < 2 ^ 15 * 2 ^ E" by simp
  finally have "n < 2 ^ (15 + E)" by (simp add: power_add)
  then have bl: "bitlen_nat n \<le> 15 + E" by (rule bitlen_nat_le)
  with E have sh: "sh < E" by (simp add: sh_def)
  from bl have sh9: "sh = 0 \<or> sh + 9 \<le> E" by (auto simp: sh_def)
  from sh have e': "e + int sh < 0" "nat (- (e + int sh)) = D" using E by (simp_all add: D_def)
  have PE: "(2::nat) ^ E = 2 ^ D * 2 ^ sh"
    using sh by (simp add: D_def power_add [symmetric])
  with n have "n \<le> (32767 * 2 ^ D) * 2 ^ sh" by simp
  then have r: "n' \<le> 32767 * 2 ^ D" unfolding n'_def by (rule round_shift_le)
  have "n' div 2 ^ D \<le> (32767 * 2 ^ D) div 2 ^ D" using r by (rule div_le_mono)
  then have k32: "k \<le> 32767" by (simp add: k_def)
  have mul: "mul_32767 (Fin s m e) = Fin s n' (e + int sh)"
    using e'(1) by (simp add: mul_32767_def Let_def n_def sh_def n'_def)
  have tm: "trunc_mag n' (e + int sh) = k"
    using e' by (simp add: trunc_mag_def k_def)
  \<comment> \<open>the integer part of the rounded product\<close>
  have kl: "k * 2 ^ D \<le> n'" by (simp add: k_def)
  have ku: "n' < (k + 1) * 2 ^ D"
    using dividend_less_times_div [of "2 ^ D" n'] by (simp add: k_def algebra_simps)
  have "(k * 2 ^ D) * 2 ^ sh \<le> n' * 2 ^ sh"
    by (rule mult_le_mono1 [OF kl])
  then have kl': "k * 2 ^ E \<le> n' * 2 ^ sh"
    unfolding PE by (simp only: mult.assoc)
  have "n' * 2 ^ sh < ((k + 1) * 2 ^ D) * 2 ^ sh"
    by (rule mult_less_mono1 [OF ku]) simp
  then have ku': "n' * 2 ^ sh < (k + 1) * 2 ^ E"
    unfolding PE by (simp only: mult.assoc)
  \<comment> \<open>the rounding error\<close>
  note err = round_shift_error [of n sh, folded n'_def]
  define A where "A = k * 2 ^ E"
  define B where "B = (2::nat) ^ E"
  define X where "X = n' * 2 ^ sh"
  define S where "S = (2::nat) ^ sh"
  from kl' have a1: "A \<le> X" by (simp add: A_def X_def)
  from ku' have a2: "X < A + B" by (simp add: A_def B_def X_def algebra_simps)
  from err have a3: "2 * X \<le> 2 * n + S" "2 * n \<le> 2 * X + S"
    by (simp_all add: X_def S_def)
  have a4: "sh = 0 \<longrightarrow> X = n" "sh \<noteq> 0 \<longrightarrow> 512 * S \<le> B"
  proof -
    show "sh = 0 \<longrightarrow> X = n" by (simp add: X_def n'_def round_shift_zero)
    show "sh \<noteq> 0 \<longrightarrow> 512 * S \<le> B"
    proof
      assume "sh \<noteq> 0"
      with sh9 have "sh + 9 \<le> E" by simp
      then have "(2::nat) ^ (sh + 9) \<le> 2 ^ E" by (rule power_increasing) simp
      then show "512 * S \<le> B" by (simp add: power_add S_def B_def)
    qed
  qed
  from a1 have b1: "1024 * A \<le> 1024 * X" by (rule mult_le_mono2)
  from a2 have "X + 1 \<le> A + B" by simp
  then have b2: "1024 * (X + 1) \<le> 1024 * (A + B)" by (rule mult_le_mono2)
  have g: "1024 * A \<le> 1024 * n + B \<and> 1024 * n < 1024 * (A + B) + B"
  proof (cases "sh = 0")
    case True
    with a4 have "X = n" by simp
    with b1 b2 show ?thesis by simp
  next
    case nz: False
    with a4 have "512 * S \<le> B" by simp
    with b1 b2 a3 show ?thesis by simp
  qed
  have "1024 * k * 2 ^ E = 1024 * A" by (simp add: A_def)
  moreover have "1024 * (k + 1) * 2 ^ E = 1024 * (A + B)"
    by (simp add: A_def B_def algebra_simps)
  ultimately have "1024 * k * 2 ^ E \<le> 1024 * n + 2 ^ E
      \<and> 1024 * n < 1024 * (k + 1) * 2 ^ E + 2 ^ E"
    using g by (simp only: B_def)
  then have "near_product m e k"
    using False by (simp add: near_product_def E_def n_def)
  with mul tm k32 show ?thesis by auto
qed

lemma quantize_sample_ok: "quantized_ok x (quantize_sample x)"
proof (cases x)
  case NaN
  then show ?thesis by (simp add: quantized_ok_def quantize_sample_NaN)
next
  case (Inf s)
  then show ?thesis by (simp add: quantized_ok_def quantize_sample_Inf)
next
  case (Fin s m e)
  define q where "q = quantize_sample (Fin s m e)"
  have "quantized_ok (Fin s m e) q"
  proof (cases "above_one m e")
    case True
    then have "q = quantize_sample (Inf s)"
      by (simp add: q_def quantize_sample_def sanitize_non_finite_def clamp_unit_def)
    then have "sint q = (if s then - 32767 else 32767)"
      by (simp add: quantize_sample_Inf)
    with True show ?thesis by (cases s) (simp_all add: quantized_ok_def)
  next
    case False
    from scaled_near_product [OF False, of s] obtain n' e'
      where mul: "mul_32767 (Fin s m e) = Fin s n' e'"
        and k: "trunc_mag n' e' \<le> 32767"
        and np: "near_product m e (trunc_mag n' e')"
      by (elim exE conjE)
    from False mul k have "q
        = (if s then - word_of_nat (trunc_mag n' e') else word_of_nat (trunc_mag n' e'))"
      by (simp add: q_def quantize_sample_def sanitize_non_finite_def clamp_unit_def
            astype_int16_def)
    with k have "sint q = (if s then - int (trunc_mag n' e') else int (trunc_mag n' e'))"
      by (simp add: sint_of_nat16 sint_neg_of_nat16)
    with False np show ?thesis by (cases s) (simp_all add: quantized_ok_def)
  qed
  then show ?thesis by (simp add: Fin q_def)
qed


lemma scale_float_data_eq:
  "scale_float_data float_data
     = map (\<lambda>x. mul_32767 (clamp_unit (sanitize_non_finite x))) float_data"
proof (cases "list_ex isnan float_data \<or> list_ex isinf float_data")
  case True
  then show ?thesis by (simp add: scale_float_data_def clip_nan_to_num)
next
  case False
  then have "\<forall>x \<in> set float_data. \<not> isnan x \<and> \<not> isinf x" by (auto simp: list_ex_iff)
  then have "map clip float_data = map (\<lambda>x. clamp_unit (sanitize_non_finite x)) float_data"
    by (simp add: clip_finite)
  with False show ?thesis by (simp add: scale_float_data_def comp_def)
qed

text \<open>
  C6. For a body that passes the two length checks, lines 195-210 give one 16-bit
  sample for each float32 sample of the body, in order, and
  \<^item> the sample is what the three steps of the specification give (\<open>quantize_sample\<close>):
    NaN replaced by 0.0 and an infinity by 1.0 with its sign, the value clamped to the
    interval from -1.0 to 1.0, the product with 32767 truncated towards zero;
  \<^item> every value of the array that the code converts, \<^verbatim>\<open>float_data * 32767\<close>, is finite
    and within the int16 range, so the conversion of line 210 is defined: a NaN or an
    infinity never reaches it;
  \<^item> in numbers (\<open>quantized_ok\<close>): NaN gives 0, an infinity or a value beyond 1 gives
    32767 with the sign, and a value \<open>v\<close> of magnitude at most 1 gives, with the sign of
    \<open>v\<close>, the integer part of a number within 1/1024 of the magnitude of \<open>v * 32767\<close>.
\<close>

theorem quantization_per_sample:
  assumes "length audio_data \<noteq> 0" and "length audio_data mod 4 = 0"
  shows "to_int16 audio_data = Inr (Some (map quantize_sample (f32_items audio_data)))
       \<and> length (f32_items audio_data) = length audio_data div 4
       \<and> list_all astype_defined (scale_float_data (f32_items audio_data))
       \<and> list_all2 quantized_ok (f32_items audio_data)
            (map quantize_sample (f32_items audio_data))"
proof -
  let ?fd = "f32_items audio_data"
  from assms have "4 \<le> length audio_data" by presburger
  then have ne: "?fd \<noteq> []" using length_f32_items [of audio_data] by auto
  have q: "map astype_int16 (scale_float_data ?fd) = map quantize_sample ?fd"
    by (simp add: scale_float_data_eq quantize_sample_def)
  from assms ne have c1: "to_int16 audio_data = Inr (Some (map quantize_sample ?fd))"
    unfolding to_int16_def frombuffer_f32_def Let_def using q by simp
  have c3: "list_all astype_defined (scale_float_data ?fd)"
    by (simp add: scale_float_data_eq list_all_iff quantize_sample_defined)
  have c4: "list_all2 quantized_ok ?fd (map quantize_sample ?fd)"
    by (simp add: list_all2_conv_all_nth quantize_sample_ok)
  from c1 c3 c4 show ?thesis by (simp add: length_f32_items)
qed

lemma scale_NaN: "mul_32767 (clip (nan_to_num NaN)) = Fin False 0 0"
  by (simp add: nan_to_num_def clip_def above_one_def mul_32767_def bitlen_nat.simps [of 0]
        round_shift_zero)

theorem quantization_per_sample_witness:
  "to_int16 [0, 0, 128, 63, 0, 0, 192, 127, 0, 0, 128, 255] = Inr (Some [32767, 0, - 32767])
   \<and> list_all astype_defined
        (scale_float_data (f32_items [0, 0, 128, 63, 0, 0, 192, 127, 0, 0, 128, 255]))
   \<and> list_all2 quantized_ok [Fin False 8388608 (- 23), NaN, Inf True] [32767, 0, - 32767]"
proof -
  let ?d = "[0, 0, 128, 63, 0, 0, 192, 127, 0, 0, 128, 255] :: byte list"
  have l: "length ?d \<noteq> 0" "length ?d mod 4 = 0" by simp_all
  have f: "f32_items ?d = [Fin False 8388608 (- 23), NaN, Inf True]"
    by (simp add: decode_one decode_nan decode_neg_inf)
  have m: "map quantize_sample [Fin False 8388608 (- 23), NaN, Inf True] = [32767, 0, - 32767]"
    by (simp add: quantize_sample_one quantize_sample_NaN quantize_sample_Inf)
  note t = quantization_per_sample [OF l]
  from t have "to_int16 ?d = Inr (Some (map quantize_sample (f32_items ?d)))"
    by (rule conjunct1)
  then have a: "to_int16 ?d = Inr (Some [32767, 0, - 32767])" by (simp only: f m)
  from t have b: "list_all astype_defined (scale_float_data (f32_items ?d))"
    by (elim conjE)
  from t have "list_all2 quantized_ok (f32_items ?d) (map quantize_sample (f32_items ?d))"
    by (elim conjE)
  then have c: "list_all2 quantized_ok [Fin False 8388608 (- 23), NaN, Inf True]
      [32767, 0, - 32767]"
    by (simp only: f m)
  show ?thesis
    apply (intro conjI)
      apply (rule a)
     apply (rule b)
    apply (rule c)
    done
qed

text \<open>Without the replacement of line 205 a NaN would reach the conversion, where it is
  undefined: clipping keeps NaN, and so does the product.\<close>

lemma cast_needs_sanitising: "\<not> astype_defined (mul_32767 (clip NaN))"
  by (simp add: clip_def mul_32767_def astype_defined_def)

subsection \<open>A fragment after the end of its utterance\<close>

lemma session_closed_accept_fragment [simp]:
  "session_closed (snd (accept_fragment V g sid h pcm)) = session_closed g"
  by (simp add: accept_fragment_def Let_def split: sum.splits bool.splits)

lemma session_closed_locked_section [simp]:
  "session_closed (snd (locked_section V m g sid pcm)) = session_closed g"
  by (simp add: locked_section_def Let_def split: option.splits sum.splits)

lemma session_closed_release [simp]: "session_closed (release g sid) = session_closed g"
  by (simp add: release_def split: option.splits)

lemma session_closed_acquire:
  "acquire g sid = Some g1 \<Longrightarrow> session_closed g1 = session_closed g"
  by (auto simp: acquire_def split: if_splits)

text \<open>No request leaves a closed marker behind: after a request the set of markers is
  within the set before it. From the start-up state, where the set is empty, the test
  of line 265 therefore never succeeds when requests run one after the other.\<close>

lemma acquire_free: "acquire g sid = Some g1 \<Longrightarrow> session_locks g sid \<noteq> Some True"
  by (auto simp: acquire_def split: if_splits)

lemma end_of_utterance_closed:
  assumes "end_of_utterance V g sid = Some (resp, g')"
  shows "session_closed g' = session_closed g - {sid}"
proof -
  from assms obtain g1 where "acquire g sid = Some g1"
    by (cases "acquire g sid") (simp_all add: end_of_utterance_def)
  then have "session_locks g sid \<noteq> Some True" by (rule acquire_free)
  from end_of_utterance_result [OF this, of V] obtain resp0 g0
    where "end_of_utterance V g sid = Some (resp0, g0)"
      and "session_closed g0 = session_closed g - {sid}"
    by (elim exE conjE)
  with assms show ?thesis by simp
qed

lemma audio_fragment_closed:
  assumes "audio_fragment V m g sid d = Some (resp, g')"
  shows "session_closed g' = session_closed g"
proof (cases "\<exists>xs b. to_int16 d = Inr (Some xs) \<and> normalize_pcm xs = Ready b
                \<and> length d \<noteq> 0 \<and> length d mod 4 = 0")
  case False
  with assms have "g' = g"
    by (auto simp: audio_fragment_def split: if_splits sum.splits option.splits norm_outcome.splits)
  then show ?thesis by simp
next
  case True
  then obtain xs pcm where x: "to_int16 d = Inr (Some xs)" and n: "normalize_pcm xs = Ready pcm"
    and l: "length d \<noteq> 0" "length d mod 4 = 0" by auto
  with assms obtain g1 where a: "acquire (setdefault_lock g sid) sid = Some g1"
    and g': "g' = release (snd (locked_section V m g1 sid pcm)) sid"
    by (auto simp: audio_fragment_def split: option.splits)
  from session_closed_acquire [OF a] g' show ?thesis by simp
qed

text \<open>No request leaves a closed marker behind: after a request the set of markers is
  within the set before it. From the start-up state, where the set is empty, the test
  of line 265 therefore never succeeds when requests run one after the other.\<close>

lemma no_marker_left:
  assumes "recognize_audio_stream V g request = Some (resp, g')"
  shows "session_closed g' \<subseteq> session_closed g"
proof (cases "model g")
  case None
  with assms show ?thesis by (simp add: recognize_audio_stream_def)
next
  case (Some m)
  let ?sid = "session_id_of request"
  let ?g = "setdefault_lock g ?sid"
  show ?thesis
  proof (cases "end_of_utt_of request")
    case True
    with Some assms have "end_of_utterance V ?g ?sid = Some (resp, g')"
      by (simp add: recognize_audio_stream_loaded)
    from end_of_utterance_closed [OF this] show ?thesis by auto
  next
    case False
    with Some assms have "audio_fragment V m ?g ?sid (body request) = Some (resp, g')"
      by (simp add: recognize_audio_stream_loaded)
    from audio_fragment_closed [OF this] show ?thesis by simp
  qed
qed


text \<open>For any engine whose constructor succeeds: a fragment that passes the checks and
  the normaliser, sent after the end-of-utterance request of its session has returned,
  makes the handler create a recognizer and pass it the buffer.\<close>

lemma fragment_after_close:
  assumes m: "model g = Some m"
    and c: "end_of_utt_of closing" and f: "\<not> end_of_utt_of late"
    and s: "session_id_of late = session_id_of closing"
    and l: "session_locks g (session_id_of closing) \<noteq> Some True"
    and x: "to_int16 (body late) = Inr (Some int16_data)"
    and n: "normalize_pcm int16_data = Ready pcm"
    and k: "KaldiRecognizer V m 16000 = Inr h"
  shows "\<exists>r1 g1 r2 g2 rest.
           recognize_audio_stream V g closing = Some (r1, g1)
         \<and> recognize_audio_stream V g1 late = Some (r2, g2)
         \<and> new_calls g1 g2 = Create # Accept (session_id_of late) pcm # rest"
proof -
  let ?sid = "session_id_of late"
  from close_request [OF m c l, of V] obtain r1 g1
    where r1: "recognize_audio_stream V g closing = Some (r1, g1)"
      and m1: "model g1 = model g"
      and c1: "recognizers g1 = (recognizers g)(session_id_of closing := None)"
      and l1: "session_locks g1 = (session_locks g)(session_id_of closing := None)"
      and s1: "session_closed g1 = session_closed g - {session_id_of closing}"
    by (elim exE conjE)
  from m1 m have m1': "model g1 = Some m" by simp
  from l1 s have f1: "session_locks g1 ?sid \<noteq> Some True" by simp
  let ?l = "locked g1 ?sid"
  let ?lc = "?l\<lparr>engine_calls := engine_calls ?l @ [Create]\<rparr>"
  let ?lr = "?lc\<lparr>recognizers := (recognizers ?lc)(?sid \<mapsto> h)\<rparr>"
  note run = fragment_reaches_engine [OF m1' f x n f1, of V]
  from c1 s have "recognizers ?l ?sid = None" by (simp add: locked_def)
  moreover from s1 s have "?sid \<notin> session_closed ?l" by (simp add: locked_def)
  ultimately have ls: "locked_section V m ?l ?sid pcm = accept_fragment V ?lr ?sid h pcm"
    using k by (simp add: locked_section_def Let_def)
  from accept_fragment_calls [of V ?lr ?sid h pcm] obtain cs
    where "engine_calls (snd (accept_fragment V ?lr ?sid h pcm))
             = engine_calls ?lr @ Accept ?sid pcm # cs"
    by (elim exE conjE)
  then have "engine_calls (snd (locked_section V m ?l ?sid pcm))
      = engine_calls ?lr @ Accept ?sid pcm # cs"
    by (simp only: ls)
  moreover have "engine_calls ?lr = engine_calls g1 @ [Create]" by (simp add: locked_def)
  ultimately have "engine_calls (snd (locked_section V m ?l ?sid pcm))
      = (engine_calls g1 @ [Create]) @ Accept ?sid pcm # cs"
    by (simp only:)
  then have "new_calls g1 (release (snd (locked_section V m ?l ?sid pcm)) ?sid)
      = Create # Accept ?sid pcm # cs"
    by (simp add: new_calls_def)
  with r1 run show ?thesis by blast
qed

text \<open>
  C1, at an input where the code departs from it. A session sends one fragment (320
  samples of silence), then the end-of-utterance request, then the same fragment again.
  The end-of-utterance request removes the recognizer and the lock, and its
  \<^verbatim>\<open>finally\<close> block discards the closed marker it had set, so the marker is not set
  when the request has returned. The late fragment is then taken for the first fragment
  of a new session: the handler creates a recognizer, feeds it the buffer and returns
  the engine's partial text, where the claim has an empty partial result and no engine
  call.
\<close>

theorem late_fragment_feeds_engine:
  "recognize_audio_stream talking_vosk g_init (fragment ''s'' silence)
     = Some ((200, TextBody (JStr ''hello'') None ''partial''),
             g_init\<lparr>recognizers := [''s'' \<mapsto> 640], session_locks := [''s'' \<mapsto> False],
                    engine_calls := [Create, Accept ''s'' (replicate 640 0), GetPartial ''s'']\<rparr>)
   \<and> recognize_audio_stream talking_vosk
        (g_init\<lparr>recognizers := [''s'' \<mapsto> 640], session_locks := [''s'' \<mapsto> False],
               engine_calls := [Create, Accept ''s'' (replicate 640 0), GetPartial ''s'']\<rparr>)
        (end_request ''s'')
     = Some ((200, TextBody (JStr []) (Some (JInt 0)) ''final''),
             g_init\<lparr>engine_calls := [Create, Accept ''s'' (replicate 640 0), GetPartial ''s'',
                                      GetFinal ''s'']\<rparr>)
   \<and> ''s'' \<notin> session_closed
        (g_init\<lparr>engine_calls := [Create, Accept ''s'' (replicate 640 0), GetPartial ''s'',
                                 GetFinal ''s'']\<rparr>)
   \<and> recognize_audio_stream talking_vosk
        (g_init\<lparr>engine_calls := [Create, Accept ''s'' (replicate 640 0), GetPartial ''s'',
                                 GetFinal ''s'']\<rparr>)
        (fragment ''s'' silence)
     = Some ((200, TextBody (JStr ''hello'') None ''partial''),
             g_init\<lparr>recognizers := [''s'' \<mapsto> 640], session_locks := [''s'' \<mapsto> False],
                    engine_calls := [Create, Accept ''s'' (replicate 640 0), GetPartial ''s'',
                                     GetFinal ''s'', Create, Accept ''s'' (replicate 640 0),
                                     GetPartial ''s'']\<rparr>)
   \<and> (200, TextBody (JStr ''hello'') None ''partial'') \<noteq> empty_partial"
proof -
  let ?c1 = "[Create, Accept ''s'' (replicate 640 0), GetPartial ''s'']"
  let ?c2 = "[Create, Accept ''s'' (replicate 640 0), GetPartial ''s'', GetFinal ''s'']"
  have b: "body (fragment ''s'' silence) = silence" by (simp add: fragment_def)
  have l: "length silence = 1280" by (simp add: silence_def)
  have frag: "recognize_audio_stream talking_vosk (g_init\<lparr>engine_calls := cs\<rparr>)
        (fragment ''s'' silence)
     = Some ((200, TextBody (JStr ''hello'') None ''partial''),
             g_init\<lparr>recognizers := [''s'' \<mapsto> 640], session_locks := [''s'' \<mapsto> False],
                    engine_calls := cs @ ?c1\<rparr>)" for cs
    by (simp add: recognize_audio_stream_def g_init_def sid_fragment eou_fragment b l
          audio_fragment_def to_int16_silence normalize_pcm_silence setdefault_lock_def
          acquire_def locked_section_def accept_fragment_def talking_vosk_def demo_vosk_def
          release_def caught_306_def partial_response_def dict_get_def Let_def)
  have r1: "recognize_audio_stream talking_vosk g_init (fragment ''s'' silence)
     = Some ((200, TextBody (JStr ''hello'') None ''partial''),
             g_init\<lparr>recognizers := [''s'' \<mapsto> 640], session_locks := [''s'' \<mapsto> False],
                    engine_calls := ?c1\<rparr>)"
    using frag [of "[]"] by (simp add: g_init_def)
  have r2: "recognize_audio_stream talking_vosk
        (g_init\<lparr>recognizers := [''s'' \<mapsto> 640], session_locks := [''s'' \<mapsto> False],
               engine_calls := ?c1\<rparr>)
        (end_request ''s'')
     = Some ((200, TextBody (JStr []) (Some (JInt 0)) ''final''),
             g_init\<lparr>engine_calls := ?c2\<rparr>)"
    by (simp add: recognize_audio_stream_def g_init_def sid_end_request eou_end_request
          setdefault_lock_def end_of_utterance_def acquire_def final_response_def
          talking_vosk_def demo_vosk_def dict_get_def release_def Let_def)
  have r3: "recognize_audio_stream talking_vosk (g_init\<lparr>engine_calls := ?c2\<rparr>)
        (fragment ''s'' silence)
     = Some ((200, TextBody (JStr ''hello'') None ''partial''),
             g_init\<lparr>recognizers := [''s'' \<mapsto> 640], session_locks := [''s'' \<mapsto> False],
                    engine_calls := ?c2 @ ?c1\<rparr>)"
    by (rule frag)
  have m: "''s'' \<notin> session_closed (g_init\<lparr>engine_calls := ?c2\<rparr>)" by (simp add: g_init_def)
  have d: "(200, TextBody (JStr ''hello'') None ''partial'') \<noteq> empty_partial"
    by (simp add: empty_partial_def)
  show ?thesis
    apply (intro conjI)
        apply (rule r1)
       apply (rule r2)
      apply (rule m)
     apply (rule r3 [simplified append.simps])
    apply (rule d)
    done
qed

end
